theory Spec2Isabelle
  imports Main
begin

section \<open>The complex-function backend of the toy calculator\<close>

text \<open>
  This theory embeds \<open>compileToComplexFunction\<close> of \<open>calculator-backends.js\<close>:
  the value table with its interning, the four simplifying constructors, the
  lowering of the syntax tree to pairs of table indices, the use counts and the
  emission of JavaScript text.

  The closure variable \<open>values\<close> of the source is threaded through every function as
  an explicit list. A JavaScript exception is a value \<open>Inl e\<close> of a sum type.
\<close>

subsection \<open>Syntax trees and IR values\<close>

text \<open>
  The parser builds \<open>{type: "number", value: s}\<close>, \<open>{type: "name", id: s}\<close> and
  \<open>{type: t, left: l, right: r}\<close> with \<open>t\<close> one of the four operator tokens.
\<close>

datatype binop = Plus | Minus | Times | Divide

fun op_text :: "binop \<Rightarrow> string" where
  "op_text Plus = ''+''"
| "op_text Minus = ''-''"
| "op_text Times = ''*''"
| "op_text Divide = ''/''"

datatype ast = Number string | Name string | BinOp binop ast ast

text \<open>
  A value of the IR is \<open>{type: "arg", arg0: name, arg1: null}\<close>,
  \<open>{type: "number", arg0: text, arg1: null}\<close> or
  \<open>{type: op, arg0: index, arg1: index}\<close>.
\<close>

datatype ir_value = ValArg string | ValNumber string | ValOp binop nat nat

text \<open>The three fields of a value object, as \<open>valuesEqual\<close> reads them.\<close>

datatype field = FStr string | FInt nat | FNull

fun vtype :: "ir_value \<Rightarrow> string" where
  "vtype (ValArg s) = ''arg''"
| "vtype (ValNumber s) = ''number''"
| "vtype (ValOp opr a b) = op_text opr"

fun varg0 :: "ir_value \<Rightarrow> field" where
  "varg0 (ValArg s) = FStr s"
| "varg0 (ValNumber s) = FStr s"
| "varg0 (ValOp opr a b) = FInt a"

fun varg1 :: "ir_value \<Rightarrow> field" where
  "varg1 (ValArg s) = FNull"
| "varg1 (ValNumber s) = FNull"
| "varg1 (ValOp opr a b) = FInt b"

datatype error = SyntaxError string | TypeError

text \<open>
  \<open>SyntaxError msg\<close> is the exception \<open>lower\<close> throws; \<open>TypeError\<close> is what
  JavaScript raises when \<open>values[i].type\<close> is read at an index outside the table.
\<close>

text \<open>
  The name of the exception's class. \<open>lower\<close> throws with \<open>SyntaxError(...)\<close>, the
  built-in class that the parser throws as well.
\<close>

fun error_name :: "error \<Rightarrow> string" where
  "error_name (SyntaxError msg) = ''SyntaxError''"
| "error_name TypeError = ''TypeError''"

record complex_pair =
  re :: nat
  im :: nat

subsection \<open>The value table\<close>

definition values0 :: "ir_value list" where
  "values0 = [ValArg ''z_re'', ValArg ''z_im'']"

definition valuesEqual :: "ir_value \<Rightarrow> ir_value \<Rightarrow> bool" where
  "valuesEqual n1 n2 =
     (vtype n1 = vtype n2 \<and> varg0 n1 = varg0 n2 \<and> varg1 n1 = varg1 n2)"

text \<open>
  The loop of \<open>valueToIndex\<close>, from index \<open>i\<close> on: the first index whose entry equals
  \<open>v\<close>, or \<open>None\<close> when the loop runs to the end of the table.
\<close>

fun valueScan :: "ir_value list \<Rightarrow> ir_value \<Rightarrow> nat \<Rightarrow> nat option" where
  "valueScan [] v i = None"
| "valueScan (x # xs) v i = (if valuesEqual x v then Some i else valueScan xs v (i + 1))"

definition valueToIndex :: "ir_value \<Rightarrow> ir_value list \<Rightarrow> nat \<times> ir_value list" where
  "valueToIndex v values =
     (case valueScan values v 0 of
        Some i \<Rightarrow> (i, values)
      | None \<Rightarrow> (length (values @ [v]) - 1, values @ [v]))"

definition num :: "string \<Rightarrow> ir_value list \<Rightarrow> nat \<times> ir_value list" where
  "num s values = valueToIndex (ValNumber s) values"

definition op :: "binop \<Rightarrow> nat \<Rightarrow> nat \<Rightarrow> ir_value list \<Rightarrow> nat \<times> ir_value list" where
  "op opr a b values = valueToIndex (ValOp opr a b) values"

text \<open>Reading \<open>values[i]\<close> and then a field of it: a \<open>TypeError\<close> outside the table.\<close>

definition value_at :: "ir_value list \<Rightarrow> nat \<Rightarrow> error + ir_value" where
  "value_at values i = (if i < length values then Inr (values ! i) else Inl TypeError)"

definition isNumber :: "ir_value list \<Rightarrow> nat \<Rightarrow> error + bool" where
  "isNumber values i =
     (case value_at values i of
        Inl e \<Rightarrow> Inl e
      | Inr v \<Rightarrow> Inr (vtype v = ''number''))"

definition isZero :: "ir_value list \<Rightarrow> nat \<Rightarrow> error + bool" where
  "isZero values i =
     (case isNumber values i of
        Inl e \<Rightarrow> Inl e
      | Inr n \<Rightarrow> if n then (case value_at values i of
                               Inl e \<Rightarrow> Inl e
                             | Inr v \<Rightarrow> Inr (varg0 v = FStr ''0''))
               else Inr False)"

definition isOne :: "ir_value list \<Rightarrow> nat \<Rightarrow> error + bool" where
  "isOne values i =
     (case isNumber values i of
        Inl e \<Rightarrow> Inl e
      | Inr n \<Rightarrow> if n then (case value_at values i of
                               Inl e \<Rightarrow> Inl e
                             | Inr v \<Rightarrow> Inr (varg0 v = FStr ''1''))
               else Inr False)"

subsection \<open>The simplifier\<close>

text \<open>
  The constant folds compute \<open>String(Number(x) + Number(y))\<close> and its siblings in
  JavaScript's floating-point arithmetic. The embedding takes that computation as a
  parameter \<open>nf\<close>: \<open>nf opr x y\<close> is the text of \<open>Number(x) opr Number(y)\<close>. Every
  theorem that does not name a particular fold holds for every \<open>nf\<close>.
\<close>

type_synonym numfold = "binop \<Rightarrow> field \<Rightarrow> field \<Rightarrow> string"

text \<open>\<open>isNumber(a) && isNumber(b)\<close>: the second test runs only when the first holds.\<close>

definition bothNumbers :: "ir_value list \<Rightarrow> nat \<Rightarrow> nat \<Rightarrow> error + bool" where
  "bothNumbers values a b =
     (case isNumber values a of
        Inl e \<Rightarrow> Inl e
      | Inr na \<Rightarrow> if na then isNumber values b else Inr False)"

text \<open>\<open>String(Number(values[a].arg0) opr Number(values[b].arg0))\<close>.\<close>

definition foldText :: "numfold \<Rightarrow> binop \<Rightarrow> ir_value list \<Rightarrow> nat \<Rightarrow> nat \<Rightarrow> error + string" where
  "foldText nf opr values a b =
     (case value_at values a of
        Inl e \<Rightarrow> Inl e
      | Inr va \<Rightarrow> (case value_at values b of
                     Inl e \<Rightarrow> Inl e
                   | Inr vb \<Rightarrow> Inr (nf opr (varg0 va) (varg0 vb))))"

definition foldNum :: "numfold \<Rightarrow> binop \<Rightarrow> nat \<Rightarrow> nat \<Rightarrow> ir_value list \<Rightarrow> error + nat \<times> ir_value list" where
  "foldNum nf opr a b values =
     (case foldText nf opr values a b of
        Inl e \<Rightarrow> Inl e
      | Inr s \<Rightarrow> Inr (num s values))"

definition add :: "numfold \<Rightarrow> nat \<Rightarrow> nat \<Rightarrow> ir_value list \<Rightarrow> error + nat \<times> ir_value list" where
  "add nf a b values =
     (case isZero values a of
        Inl e \<Rightarrow> Inl e
      | Inr za \<Rightarrow>
          if za then Inr (b, values)
          else (case isZero values b of
                  Inl e \<Rightarrow> Inl e
                | Inr zb \<Rightarrow>
                    if zb then Inr (a, values)
                    else (case bothNumbers values a b of
                            Inl e \<Rightarrow> Inl e
                          | Inr nn \<Rightarrow>
                              if nn then foldNum nf Plus a b values
                              else Inr (op Plus a b values))))"

definition sub :: "numfold \<Rightarrow> nat \<Rightarrow> nat \<Rightarrow> ir_value list \<Rightarrow> error + nat \<times> ir_value list" where
  "sub nf a b values =
     (case isZero values b of
        Inl e \<Rightarrow> Inl e
      | Inr zb \<Rightarrow>
          if zb then Inr (a, values)
          else (case bothNumbers values a b of
                  Inl e \<Rightarrow> Inl e
                | Inr nn \<Rightarrow>
                    if nn then foldNum nf Minus a b values
                    else Inr (op Minus a b values)))"

definition mul :: "numfold \<Rightarrow> nat \<Rightarrow> nat \<Rightarrow> ir_value list \<Rightarrow> error + nat \<times> ir_value list" where
  "mul nf a b values =
     (case isZero values a of
        Inl e \<Rightarrow> Inl e
      | Inr za \<Rightarrow>
          if za then Inr (a, values)
          else (case isZero values b of
                  Inl e \<Rightarrow> Inl e
                | Inr zb \<Rightarrow>
                    if zb then Inr (b, values)
                    else (case isOne values a of
                            Inl e \<Rightarrow> Inl e
                          | Inr oa \<Rightarrow>
                              if oa then Inr (b, values)
                              else (case isOne values b of
                                      Inl e \<Rightarrow> Inl e
                                    | Inr ob \<Rightarrow>
                                        if ob then Inr (a, values)
                                        else (case bothNumbers values a b of
                                                Inl e \<Rightarrow> Inl e
                                              | Inr nn \<Rightarrow>
                                                  if nn then foldNum nf Times a b values
                                                  else Inr (op Times a b values))))))"

text \<open>
  \<open>isNumber(a) && isNumber(b) && !isZero(b)\<close> guards the fold of \<open>div\<close>: a constant
  zero divisor is not folded and no exception is thrown for it.
\<close>

definition div_values :: "numfold \<Rightarrow> nat \<Rightarrow> nat \<Rightarrow> ir_value list \<Rightarrow> error + nat \<times> ir_value list" where
  "div_values nf a b values =
     (case isOne values b of
        Inl e \<Rightarrow> Inl e
      | Inr ob \<Rightarrow>
          if ob then Inr (a, values)
          else (case bothNumbers values a b of
                  Inl e \<Rightarrow> Inl e
                | Inr nn \<Rightarrow>
                    if nn
                    then (case isZero values b of
                            Inl e \<Rightarrow> Inl e
                          | Inr zb \<Rightarrow>
                              if \<not> zb then foldNum nf Divide a b values
                              else Inr (op Divide a b values))
                    else Inr (op Divide a b values)))"

subsection \<open>Lowering\<close>

text \<open>
  Each case of \<open>lower\<close> first lowers both children, left before right, and then
  builds the result object, whose \<open>re\<close> field is evaluated before its \<open>im\<close> field and
  whose call arguments are evaluated left to right.
\<close>

definition lower_addsub ::
  "(nat \<Rightarrow> nat \<Rightarrow> ir_value list \<Rightarrow> error + nat \<times> ir_value list) \<Rightarrow>
   complex_pair \<Rightarrow> complex_pair \<Rightarrow> ir_value list \<Rightarrow> error + complex_pair \<times> ir_value list" where
  "lower_addsub f a b values =
     (case f (re a) (re b) values of
        Inl e \<Rightarrow> Inl e
      | Inr (r, v1) \<Rightarrow>
          (case f (im a) (im b) v1 of
             Inl e \<Rightarrow> Inl e
           | Inr (i, v2) \<Rightarrow> Inr (\<lparr>re = r, im = i\<rparr>, v2)))"

definition lower_mul ::
  "numfold \<Rightarrow> complex_pair \<Rightarrow> complex_pair \<Rightarrow> ir_value list \<Rightarrow> error + complex_pair \<times> ir_value list" where
  "lower_mul nf a b values =
     (case mul nf (re a) (re b) values of Inl e \<Rightarrow> Inl e | Inr (m1, v1) \<Rightarrow>
     (case mul nf (im a) (im b) v1 of Inl e \<Rightarrow> Inl e | Inr (m2, v2) \<Rightarrow>
     (case sub nf m1 m2 v2 of Inl e \<Rightarrow> Inl e | Inr (r, v3) \<Rightarrow>
     (case mul nf (re a) (im b) v3 of Inl e \<Rightarrow> Inl e | Inr (m3, v4) \<Rightarrow>
     (case mul nf (im a) (re b) v4 of Inl e \<Rightarrow> Inl e | Inr (m4, v5) \<Rightarrow>
     (case add nf m3 m4 v5 of Inl e \<Rightarrow> Inl e | Inr (i, v6) \<Rightarrow>
        Inr (\<lparr>re = r, im = i\<rparr>, v6)))))))"

definition lower_div ::
  "numfold \<Rightarrow> complex_pair \<Rightarrow> complex_pair \<Rightarrow> ir_value list \<Rightarrow> error + complex_pair \<times> ir_value list" where
  "lower_div nf a b values =
     (case mul nf (re b) (re b) values of Inl e \<Rightarrow> Inl e | Inr (t1, v1) \<Rightarrow>
     (case mul nf (im b) (im b) v1 of Inl e \<Rightarrow> Inl e | Inr (t2, v2) \<Rightarrow>
     (case add nf t1 t2 v2 of Inl e \<Rightarrow> Inl e | Inr (t, v3) \<Rightarrow>
     (case mul nf (re a) (re b) v3 of Inl e \<Rightarrow> Inl e | Inr (m1, v4) \<Rightarrow>
     (case mul nf (im a) (im b) v4 of Inl e \<Rightarrow> Inl e | Inr (m2, v5) \<Rightarrow>
     (case add nf m1 m2 v5 of Inl e \<Rightarrow> Inl e | Inr (s, v6) \<Rightarrow>
     (case div_values nf s t v6 of Inl e \<Rightarrow> Inl e | Inr (r, v7) \<Rightarrow>
     (case mul nf (im a) (re b) v7 of Inl e \<Rightarrow> Inl e | Inr (m3, v8) \<Rightarrow>
     (case mul nf (re a) (im b) v8 of Inl e \<Rightarrow> Inl e | Inr (m4, v9) \<Rightarrow>
     (case sub nf m3 m4 v9 of Inl e \<Rightarrow> Inl e | Inr (d, v10) \<Rightarrow>
     (case div_values nf d t v10 of Inl e \<Rightarrow> Inl e | Inr (i, v11) \<Rightarrow>
        Inr (\<lparr>re = r, im = i\<rparr>, v11))))))))))))"

definition lower_number :: "string \<Rightarrow> ir_value list \<Rightarrow> complex_pair \<times> ir_value list" where
  "lower_number s values =
     (case num s values of (r, v1) \<Rightarrow>
        (case num ''0'' v1 of (i, v2) \<Rightarrow> (\<lparr>re = r, im = i\<rparr>, v2)))"

definition lower_i :: "ir_value list \<Rightarrow> complex_pair \<times> ir_value list" where
  "lower_i values =
     (case num ''0'' values of (r, v1) \<Rightarrow>
        (case num ''1'' v1 of (i, v2) \<Rightarrow> (\<lparr>re = r, im = i\<rparr>, v2)))"

fun lower :: "numfold \<Rightarrow> ast \<Rightarrow> ir_value list \<Rightarrow> error + complex_pair \<times> ir_value list" where
  "lower nf (Number s) values = Inr (lower_number s values)"
| "lower nf (BinOp opr l r) values =
     (case lower nf l values of
        Inl e \<Rightarrow> Inl e
      | Inr (a, v1) \<Rightarrow>
          (case lower nf r v1 of
             Inl e \<Rightarrow> Inl e
           | Inr (b, v2) \<Rightarrow>
               (case opr of
                  Plus \<Rightarrow> lower_addsub (add nf) a b v2
                | Minus \<Rightarrow> lower_addsub (sub nf) a b v2
                | Times \<Rightarrow> lower_mul nf a b v2
                | Divide \<Rightarrow> lower_div nf a b v2)))"
| "lower nf (Name x) values =
     (if x = ''i'' then Inr (lower_i values)
      else if x \<noteq> ''z'' then Inl (SyntaxError (''undefined variable: '' @ x))
      else Inr (\<lparr>re = 0, im = 1\<rparr>, values))"

subsection \<open>JavaScript arrays and number texts\<close>

text \<open>
  \<open>a[i] = v\<close> on a JavaScript array stores inside the array or extends it, leaving
  holes below \<open>i\<close>; reading a hole or beyond the end gives \<open>undefined\<close>. The element
  \<open>hole\<close> stands for \<open>undefined\<close>.
\<close>

definition arr_set :: "'a \<Rightarrow> 'a list \<Rightarrow> nat \<Rightarrow> 'a \<Rightarrow> 'a list" where
  "arr_set hole xs i v =
     (if i < length xs then xs[i := v]
      else xs @ replicate (i - length xs) hole @ [v])"

definition arr_get :: "'a \<Rightarrow> 'a list \<Rightarrow> nat \<Rightarrow> 'a" where
  "arr_get hole xs i = (if i < length xs then xs ! i else hole)"

text \<open>The decimal text of a natural number, as \<open>"t" + next_temp_id\<close> renders it.\<close>

definition digit_char :: "nat \<Rightarrow> char" where
  "digit_char d = ''0123456789'' ! d"

fun show_nat :: "nat \<Rightarrow> string" where
  "show_nat n = (if n < 10 then [digit_char n] else show_nat (n div 10) @ [digit_char (n mod 10)])"

subsection \<open>Use counts\<close>

text \<open>
  An element of \<open>useCounts\<close> is a count, or \<open>None\<close> for \<open>undefined\<close> and for the
  \<open>NaN\<close> that \<open>undefined++\<close> stores: neither is a number greater than one, and
  incrementing either gives \<open>NaN\<close>.
\<close>

definition increment :: "nat option list \<Rightarrow> nat \<Rightarrow> nat option list" where
  "increment useCounts k =
     arr_set None useCounts k
       (case arr_get None useCounts k of Some n \<Rightarrow> Some (n + 1) | None \<Rightarrow> None)"

definition useCounts_step :: "ir_value list \<Rightarrow> nat option list \<Rightarrow> nat \<Rightarrow> nat option list" where
  "useCounts_step values useCounts i =
     (let u = arr_set None useCounts i (Some 0)
      in case values ! i of
           ValOp opr a b \<Rightarrow> increment (increment u a) b
         | _ \<Rightarrow> u)"

definition computeUseCounts :: "ir_value list \<Rightarrow> nat option list" where
  "computeUseCounts values = foldl (useCounts_step values) [] [0..<length values]"

subsection \<open>Emission\<close>

record emitter =
  code :: string
  next_temp_id :: nat
  js :: "string list"

text \<open>
  One iteration of the loop of \<open>ir_to_js\<close>. Concatenating \<open>undefined\<close> into a string
  gives the text \<open>undefined\<close>, which is the hole of the array \<open>js\<close>.
\<close>

definition ir_step :: "ir_value list \<Rightarrow> nat option list \<Rightarrow> emitter \<Rightarrow> nat \<Rightarrow> emitter" where
  "ir_step values useCounts st i =
     (let text = (case values ! i of
                    ValNumber s \<Rightarrow> s
                  | ValArg s \<Rightarrow> s
                  | ValOp opr a b \<Rightarrow>
                      ''('' @ arr_get ''undefined'' (js st) a @ op_text opr
                        @ arr_get ''undefined'' (js st) b @ '')'');
          st1 = st\<lparr>js := arr_set ''undefined'' (js st) i text\<rparr>
      in case arr_get None useCounts i of
           Some n \<Rightarrow>
             if n > 1
             then (let name = ''t'' @ show_nat (next_temp_id st1)
                   in st1\<lparr>code := code st1 @ ''var '' @ name @ '' = ''
                                    @ arr_get ''undefined'' (js st1) i @ '';'' @ [CHR 0x0A],
                           next_temp_id := next_temp_id st1 + 1,
                           js := arr_set ''undefined'' (js st1) i name\<rparr>)
             else st1
         | None \<Rightarrow> st1)"

definition ir_to_js :: "ir_value list \<Rightarrow> complex_pair \<Rightarrow> string" where
  "ir_to_js values result =
     (let useCounts = computeUseCounts values;
          st = foldl (ir_step values useCounts)
                 \<lparr>code = [], next_temp_id = 0, js = []\<rparr> [0..<length values]
      in code st @ ''return {re: '' @ arr_get ''undefined'' (js st) (re result)
           @ '', im: '' @ arr_get ''undefined'' (js st) (im result) @ ''};'' @ [CHR 0x0A])"

text \<open>
  The compiler after parsing: the body text handed to \<open>Function("z_re, z_im", code)\<close>,
  or the exception. The table is local to one call and starts as \<open>values0\<close>.
\<close>

definition compileToComplexFunction :: "numfold \<Rightarrow> ast \<Rightarrow> error + string" where
  "compileToComplexFunction nf tree =
     (case lower nf tree values0 of
        Inl e \<Rightarrow> Inl e
      | Inr (result, values) \<Rightarrow> Inr (ir_to_js values result))"

subsection \<open>A fold on integer texts\<close>

text \<open>
  On decimal integer texts whose values and results are integers below \<open>2^53\<close>,
  JavaScript's \<open>String(Number(x) opr Number(y))\<close> for \<open>+\<close>, \<open>-\<close> and \<open>*\<close> is exact
  integer arithmetic printed in decimal. \<open>int_fold\<close> computes that, and is the
  concrete fold of the examples below, which use it on such inputs only. For \<open>/\<close> it
  gives the integer quotient, which is JavaScript's result only when the divisor is not
  zero and divides the dividend (JavaScript gives \<open>0.5\<close> for \<open>2/4\<close> and \<open>Infinity\<close>
  for \<open>1/0\<close>), and from \<open>2^53\<close> on its digits are exact where JavaScript rounds.
  It is evaluated below at \<open>1 - 2\<close> and \<open>2 * 3\<close> only.
\<close>

definition parse_nat :: "string \<Rightarrow> nat" where
  "parse_nat s = foldl (\<lambda>n c. 10 * n + (of_char c - 48)) 0 s"

definition parse_int :: "string \<Rightarrow> int" where
  "parse_int s = (case s of
                    c # ds \<Rightarrow> if c = CHR ''-'' then - int (parse_nat ds) else int (parse_nat s)
                  | [] \<Rightarrow> 0)"

definition show_int :: "int \<Rightarrow> string" where
  "show_int k = (if k < 0 then ''-'' @ show_nat (nat (- k)) else show_nat (nat k))"

fun field_text :: "field \<Rightarrow> string" where
  "field_text (FStr s) = s"
| "field_text (FInt n) = show_nat n"
| "field_text FNull = ''0''"

definition int_fold :: numfold where
  "int_fold opr x y =
     (let a = parse_int (field_text x); b = parse_int (field_text y)
      in show_int (case opr of
                     Plus \<Rightarrow> a + b
                   | Minus \<Rightarrow> a - b
                   | Times \<Rightarrow> a * b
                   | Divide \<Rightarrow> a div b))"

subsection \<open>Properties of tables and trees\<close>

text \<open>An operation at index \<open>i\<close> whose operands both lie below \<open>i\<close>.\<close>

fun operands_below :: "nat \<Rightarrow> ir_value \<Rightarrow> bool" where
  "operands_below i (ValOp opr a b) = (a < i \<and> b < i)"
| "operands_below i v = True"

definition topological :: "ir_value list \<Rightarrow> bool" where
  "topological values = (\<forall>i < length values. operands_below i (values ! i))"

text \<open>The invariant of the table during lowering.\<close>

definition table_inv :: "ir_value list \<Rightarrow> bool" where
  "table_inv values = (distinct values \<and> topological values \<and> 2 \<le> length values)"

text \<open>
  The four shapes a simplifier result takes: one of the operands with the table
  unchanged, an interned constant, or an interned operation on the two operands.
\<close>

definition simp_result ::
  "nat \<Rightarrow> nat \<Rightarrow> ir_value list \<Rightarrow> error + nat \<times> ir_value list \<Rightarrow> bool" where
  "simp_result a b values r =
     (r = Inr (a, values) \<or> r = Inr (b, values) \<or> (\<exists>s. r = Inr (num s values))
      \<or> (\<exists>opr. r = Inr (op opr a b values)))"

text \<open>How often index \<open>k\<close> is an operand of an operation entry.\<close>

fun uses_in :: "ir_value \<Rightarrow> nat \<Rightarrow> nat" where
  "uses_in (ValOp opr a b) k = (if a = k then 1 else 0) + (if b = k then 1 else 0)"
| "uses_in v k = 0"

definition operand_uses :: "ir_value list \<Rightarrow> nat \<Rightarrow> nat" where
  "operand_uses values k = sum_list (map (\<lambda>v. uses_in v k) values)"

text \<open>
  The use count as the specification words it: the operand occurrences, and one more
  for each of the two result indices.
\<close>

definition spec_use_count :: "ir_value list \<Rightarrow> complex_pair \<Rightarrow> nat \<Rightarrow> nat" where
  "spec_use_count values result k =
     operand_uses values k + (if k = re result then 1 else 0) + (if k = im result then 1 else 0)"

text \<open>The text of a constant entry, for indices inside the table.\<close>

definition const_text :: "ir_value list \<Rightarrow> nat \<Rightarrow> string option" where
  "const_text values i = (case values ! i of ValNumber s \<Rightarrow> Some s | _ \<Rightarrow> None)"

text \<open>The identifiers of a tree other than \<open>z\<close> and \<open>i\<close>, from left to right.\<close>

fun undefined_names :: "ast \<Rightarrow> string list" where
  "undefined_names (Number s) = []"
| "undefined_names (Name x) = (if x = ''i'' \<or> x = ''z'' then [] else [x])"
| "undefined_names (BinOp opr l r) = undefined_names l @ undefined_names r"

text \<open>
  What a simplifier call and a lowering call return from a table that satisfies the
  invariant: a result, no exception, and a table that extends the old one.
\<close>

definition interned_ok :: "ir_value list \<Rightarrow> error + nat \<times> ir_value list \<Rightarrow> bool" where
  "interned_ok values r =
     (\<exists>k vs'. r = Inr (k, vs') \<and> table_inv vs' \<and> k < length vs' \<and> (\<exists>ys. vs' = values @ ys))"

definition lowered_ok :: "ir_value list \<Rightarrow> error + complex_pair \<times> ir_value list \<Rightarrow> bool" where
  "lowered_ok values r =
     (\<exists>p vs'. r = Inr (p, vs') \<and> table_inv vs' \<and> re p < length vs' \<and> im p < length vs'
        \<and> (\<exists>ys. vs' = values @ ys))"

subsection \<open>Example formulas\<close>

text \<open>The trees the parser builds for the formulas named in the comments.\<close>

definition tree_z_plus_1 :: ast where \<comment> \<open>\<open>z+1\<close>\<close>
  "tree_z_plus_1 = BinOp Plus (Name ''z'') (Number ''1'')"

definition tree_quotient :: ast where \<comment> \<open>\<open>(z+1)/(z-1)\<close>, the example of the source's comment\<close>
  "tree_quotient = BinOp Divide (BinOp Plus (Name ''z'') (Number ''1''))
                                (BinOp Minus (Name ''z'') (Number ''1''))"

definition tree_square :: ast where \<comment> \<open>\<open>(z+1)*(z+1)\<close>\<close>
  "tree_square = BinOp Times (BinOp Plus (Name ''z'') (Number ''1''))
                             (BinOp Plus (Name ''z'') (Number ''1''))"

definition tree_2_times_3 :: ast where \<comment> \<open>\<open>2*3\<close>\<close>
  "tree_2_times_3 = BinOp Times (Number ''2'') (Number ''3'')"

definition tree_z_times_1 :: ast where \<comment> \<open>\<open>z*1\<close>\<close>
  "tree_z_times_1 = BinOp Times (Name ''z'') (Number ''1'')"

definition tree_y_plus_1 :: ast where \<comment> \<open>\<open>y + 1\<close>\<close>
  "tree_y_plus_1 = BinOp Plus (Name ''y'') (Number ''1'')"

definition tree_x_plus_y :: ast where \<comment> \<open>\<open>x + y\<close>\<close>
  "tree_x_plus_y = BinOp Plus (Name ''x'') (Name ''y'')"

definition tree_z_minus_negative :: ast where \<comment> \<open>\<open>z-(1-2)\<close>\<close>
  "tree_z_minus_negative = BinOp Minus (Name ''z'') (BinOp Minus (Number ''1'') (Number ''2''))"

definition tree_1_div_0 :: ast where \<comment> \<open>\<open>1/0\<close>\<close>
  "tree_1_div_0 = BinOp Divide (Number ''1'') (Number ''0'')"

definition table_quotient :: "ir_value list" where
  "table_quotient =
     [ValArg ''z_re'', ValArg ''z_im'', ValNumber ''1'', ValNumber ''0'',
      ValOp Plus 0 2, ValOp Minus 0 2, ValOp Times 5 5, ValOp Times 1 1,
      ValOp Plus 6 7, ValOp Times 4 5, ValOp Plus 9 7, ValOp Divide 10 8,
      ValOp Times 1 5, ValOp Times 4 1, ValOp Minus 12 13, ValOp Divide 14 8]"

definition table_square :: "ir_value list" where
  "table_square =
     [ValArg ''z_re'', ValArg ''z_im'', ValNumber ''1'', ValNumber ''0'',
      ValOp Plus 0 2, ValOp Times 4 4, ValOp Times 1 1, ValOp Minus 5 6,
      ValOp Times 4 1, ValOp Times 1 4, ValOp Plus 8 9]"

text \<open>
  The output the comment above \<open>compileToComplexFunction\<close> gives for \<open>(z+1)/(z-1)\<close>
  (the body of the function, line by line).
\<close>

definition documented_quotient_code :: string where
  "documented_quotient_code =
     ''var t0 = (z_re+1);'' @ [CHR 0x0A]
     @ ''var t1 = (z_re-1);'' @ [CHR 0x0A]
     @ ''var t2 = (z_im*z_im);'' @ [CHR 0x0A]
     @ ''var t3 = ((t1*t1)+t2);'' @ [CHR 0x0A]
     @ ''return {re: (((t0*t1)+t2)/t3), im: (((z_im*t1)-(t0*z_im))/t3)};'' @ [CHR 0x0A]"

text \<open>What the code emits for the same formula.\<close>

definition emitted_quotient_code :: string where
  "emitted_quotient_code =
     ''var t0 = z_re;'' @ [CHR 0x0A]
     @ ''var t1 = z_im;'' @ [CHR 0x0A]
     @ ''var t2 = 1;'' @ [CHR 0x0A]
     @ ''var t3 = (t0+t2);'' @ [CHR 0x0A]
     @ ''var t4 = (t0-t2);'' @ [CHR 0x0A]
     @ ''var t5 = (t1*t1);'' @ [CHR 0x0A]
     @ ''var t6 = ((t4*t4)+t5);'' @ [CHR 0x0A]
     @ ''return {re: (((t3*t4)+t5)/t6), im: (((t1*t4)-(t3*t1))/t6)};'' @ [CHR 0x0A]"

section \<open>Lemmas\<close>

subsection \<open>Interning\<close>


lemma op_text_inject: "op_text p = op_text q \<longleftrightarrow> p = q"
  by (cases p; cases q) simp_all

lemma op_text_not_kind: "op_text p \<noteq> ''arg''" "op_text p \<noteq> ''number''"
  "''arg'' \<noteq> op_text p" "''number'' \<noteq> op_text p"
  by (cases p; simp)+

lemma valuesEqual_iff: "valuesEqual n1 n2 \<longleftrightarrow> n1 = n2"
  by (cases n1; cases n2) (auto simp: valuesEqual_def op_text_inject op_text_not_kind)

lemma valueScan_None: "valueScan xs v i = None \<longleftrightarrow> v \<notin> set xs"
  by (induction xs arbitrary: i) (auto simp: valuesEqual_iff)

lemma valueScan_Some:
  "valueScan xs v i = Some k \<Longrightarrow>
     i \<le> k \<and> k - i < length xs \<and> xs ! (k - i) = v \<and> (\<forall>j < k - i. xs ! j \<noteq> v)"
proof (induction xs arbitrary: i)
  case Nil
  then show ?case by simp
next
  case (Cons x xs)
  show ?case
  proof (cases "x = v")
    case True
    with Cons.prems show ?thesis by (simp add: valuesEqual_iff)
  next
    case False
    with Cons.prems have s: "valueScan xs v (i + 1) = Some k"
      by (simp add: valuesEqual_iff)
    from Cons.IH[OF s] have ih: "i + 1 \<le> k" "k - (i + 1) < length xs"
      "xs ! (k - (i + 1)) = v" "\<forall>j < k - (i + 1). xs ! j \<noteq> v" by auto
    have e: "k - i = Suc (k - (i + 1))" using ih(1) by simp
    show ?thesis using ih False
      by (auto simp: e nth_Cons split: nat.splits)
  qed
qed

lemma valueToIndex_found:
  "v \<in> set vs \<Longrightarrow> \<exists>k. valueToIndex v vs = (k, vs) \<and> k < length vs \<and> vs ! k = v \<and> (\<forall>j < k. vs ! j \<noteq> v)"
proof -
  assume m: "v \<in> set vs"
  then obtain k where s: "valueScan vs v 0 = Some k"
    using valueScan_None[of vs v 0] by (cases "valueScan vs v 0") auto
  from valueScan_Some[OF s] show ?thesis using s by (simp add: valueToIndex_def)
qed

lemma valueToIndex_new:
  "v \<notin> set vs \<Longrightarrow> valueToIndex v vs = (length vs, vs @ [v])"
  using valueScan_None[of vs v 0] by (simp add: valueToIndex_def)

lemma topological_append:
  "topological vs \<Longrightarrow> operands_below (length vs) v \<Longrightarrow> topological (vs @ [v])"
  by (auto simp: topological_def nth_append less_Suc_eq)

lemma topological_take: "topological vs \<Longrightarrow> topological (take n vs)"
  by (simp add: topological_def)

lemma valueToIndex_inv:
  assumes "table_inv vs" "operands_below (length vs) v" "valueToIndex v vs = (k, vs')"
  shows "table_inv vs' \<and> k < length vs' \<and> length vs \<le> length vs' \<and> vs' ! k = v
         \<and> (\<exists>ys. vs' = vs @ ys)"
proof (cases "v \<in> set vs")
  case True
  from valueToIndex_found[OF True] assms show ?thesis by auto
next
  case False
  from valueToIndex_new[OF False] assms False show ?thesis
    by (auto simp: table_inv_def topological_append)
qed

lemma simp_result_inv:
  assumes "table_inv vs" "a < length vs" "b < length vs" "simp_result a b vs r"
  shows "\<exists>k vs'. r = Inr (k, vs') \<and> table_inv vs' \<and> k < length vs' \<and> length vs \<le> length vs'
           \<and> (\<exists>ys. vs' = vs @ ys)"
proof -
  have n: "\<And>s. \<exists>k vs'. num s vs = (k, vs') \<and> table_inv vs' \<and> k < length vs' \<and> length vs \<le> length vs'
           \<and> (\<exists>ys. vs' = vs @ ys)"
  proof -
    fix s
    obtain k vs' where e: "valueToIndex (ValNumber s) vs = (k, vs')" by (cases "valueToIndex (ValNumber s) vs")
    from valueToIndex_inv[OF assms(1) _ e] show "\<exists>k vs'. num s vs = (k, vs') \<and> table_inv vs' \<and> k < length vs' \<and> length vs \<le> length vs'
           \<and> (\<exists>ys. vs' = vs @ ys)" using e by (simp add: num_def)
  qed
  have o: "\<And>opr. \<exists>k vs'. op opr a b vs = (k, vs') \<and> table_inv vs' \<and> k < length vs' \<and> length vs \<le> length vs'
           \<and> (\<exists>ys. vs' = vs @ ys)"
  proof -
    fix opr
    obtain k vs' where e: "valueToIndex (ValOp opr a b) vs = (k, vs')" by (cases "valueToIndex (ValOp opr a b) vs")
    from valueToIndex_inv[OF assms(1) _ e] assms(2,3) show "\<exists>k vs'. op opr a b vs = (k, vs') \<and> table_inv vs' \<and> k < length vs' \<and> length vs \<le> length vs'
           \<and> (\<exists>ys. vs' = vs @ ys)" using e by (simp add: op_def)
  qed
  from assms(4) consider "r = Inr (a, vs)" | "r = Inr (b, vs)" | s where "r = Inr (num s vs)"
    | opr where "r = Inr (op opr a b vs)" by (auto simp: simp_result_def)
  then show ?thesis
  proof cases
    case 1 then show ?thesis using assms by simp
  next
    case 2 then show ?thesis using assms by simp
  next
    case 3 then show ?thesis using n[of s] by auto
  next
    case 4 then show ?thesis using o[of opr] by auto
  qed
qed

lemma isNumber_in: "i < length vs \<Longrightarrow> isNumber vs i = Inr (\<exists>s. vs ! i = ValNumber s)"
  by (cases "vs ! i") (auto simp: isNumber_def value_at_def op_text_not_kind)

lemma isZero_in: "i < length vs \<Longrightarrow> isZero vs i = Inr (vs ! i = ValNumber ''0'')"
  by (cases "vs ! i") (auto simp: isZero_def isNumber_in value_at_def)

lemma isOne_in: "i < length vs \<Longrightarrow> isOne vs i = Inr (vs ! i = ValNumber ''1'')"
  by (cases "vs ! i") (auto simp: isOne_def isNumber_in value_at_def)

lemma bothNumbers_in:
  "a < length vs \<Longrightarrow> b < length vs \<Longrightarrow>
   bothNumbers vs a b = Inr ((\<exists>s. vs ! a = ValNumber s) \<and> (\<exists>s. vs ! b = ValNumber s))"
  by (simp add: bothNumbers_def isNumber_in)

lemma foldNum_in:
  "a < length vs \<Longrightarrow> b < length vs \<Longrightarrow>
   foldNum nf opr a b vs = Inr (num (nf opr (varg0 (vs ! a)) (varg0 (vs ! b))) vs)"
  by (simp add: foldNum_def foldText_def value_at_def)

lemma add_in:
  "a < length vs \<Longrightarrow> b < length vs \<Longrightarrow>
   add nf a b vs = Inr
     (if vs ! a = ValNumber ''0'' then (b, vs)
      else if vs ! b = ValNumber ''0'' then (a, vs)
      else if (\<exists>s. vs ! a = ValNumber s) \<and> (\<exists>s. vs ! b = ValNumber s)
        then num (nf Plus (varg0 (vs ! a)) (varg0 (vs ! b))) vs
      else op Plus a b vs)"
  by (simp add: add_def isZero_in bothNumbers_in foldNum_in)

lemma sub_in:
  "a < length vs \<Longrightarrow> b < length vs \<Longrightarrow>
   sub nf a b vs = Inr
     (if vs ! b = ValNumber ''0'' then (a, vs)
      else if (\<exists>s. vs ! a = ValNumber s) \<and> (\<exists>s. vs ! b = ValNumber s)
        then num (nf Minus (varg0 (vs ! a)) (varg0 (vs ! b))) vs
      else op Minus a b vs)"
  by (simp add: sub_def isZero_in bothNumbers_in foldNum_in)

lemma mul_in:
  "a < length vs \<Longrightarrow> b < length vs \<Longrightarrow>
   mul nf a b vs = Inr
     (if vs ! a = ValNumber ''0'' then (a, vs)
      else if vs ! b = ValNumber ''0'' then (b, vs)
      else if vs ! a = ValNumber ''1'' then (b, vs)
      else if vs ! b = ValNumber ''1'' then (a, vs)
      else if (\<exists>s. vs ! a = ValNumber s) \<and> (\<exists>s. vs ! b = ValNumber s)
        then num (nf Times (varg0 (vs ! a)) (varg0 (vs ! b))) vs
      else op Times a b vs)"
  by (simp add: mul_def isZero_in isOne_in bothNumbers_in foldNum_in)

lemma div_in:
  "a < length vs \<Longrightarrow> b < length vs \<Longrightarrow>
   div_values nf a b vs = Inr
     (if vs ! b = ValNumber ''1'' then (a, vs)
      else if (\<exists>s. vs ! a = ValNumber s) \<and> (\<exists>s. vs ! b = ValNumber s) \<and> vs ! b \<noteq> ValNumber ''0''
        then num (nf Divide (varg0 (vs ! a)) (varg0 (vs ! b))) vs
      else op Divide a b vs)"
  by (simp add: div_values_def isZero_in isOne_in bothNumbers_in foldNum_in)

lemma simp_result_ops:
  assumes "a < length vs" "b < length vs"
  shows "simp_result a b vs (add nf a b vs)" "simp_result a b vs (sub nf a b vs)"
    "simp_result a b vs (mul nf a b vs)" "simp_result a b vs (div_values nf a b vs)"
  using assms by (auto simp: add_in sub_in mul_in div_in simp_result_def)

subsection \<open>Lowering keeps the invariant\<close>


lemma step_ok:
  assumes "table_inv vs" "a < length vs" "b < length vs"
  shows "interned_ok vs (add nf a b vs)" "interned_ok vs (sub nf a b vs)"
    "interned_ok vs (mul nf a b vs)" "interned_ok vs (div_values nf a b vs)"
  using simp_result_inv[OF assms simp_result_ops(1)[OF assms(2,3)], of nf]
    simp_result_inv[OF assms simp_result_ops(2)[OF assms(2,3)], of nf]
    simp_result_inv[OF assms simp_result_ops(3)[OF assms(2,3)], of nf]
    simp_result_inv[OF assms simp_result_ops(4)[OF assms(2,3)], of nf]
  unfolding interned_ok_def by blast+

lemma interned_okE:
  assumes "interned_ok vs r"
  obtains k vs' where "r = Inr (k, vs')" "table_inv vs'" "k < length vs'"
    "length vs \<le> length vs'" "\<exists>ys. vs' = vs @ ys"
  using assms unfolding interned_ok_def by auto

lemma lower_addsub_ok:
  assumes inv: "table_inv vs"
    and rng: "re a < length vs" "im a < length vs" "re b < length vs" "im b < length vs"
    and f: "f = add nf \<or> f = sub nf"
  shows "lowered_ok vs (lower_addsub f a b vs)"
proof -
  have "interned_ok vs (f (re a) (re b) vs)"
    using f step_ok(1,2)[OF inv rng(1) rng(3)] by auto
  then obtain r v1 where 1: "f (re a) (re b) vs = Inr (r, v1)" "table_inv v1" "r < length v1"
    "length vs \<le> length v1" "\<exists>ys. v1 = vs @ ys" by (rule interned_okE)
  have "interned_ok v1 (f (im a) (im b) v1)"
    using f step_ok(1,2)[OF 1(2), of "im a" "im b"] rng 1(4) by auto
  then obtain i v2 where 2: "f (im a) (im b) v1 = Inr (i, v2)" "table_inv v2" "i < length v2"
    "length v1 \<le> length v2" "\<exists>ys. v2 = v1 @ ys" by (rule interned_okE)
  have "\<exists>ys. v2 = vs @ ys" using 1(5) 2(5) by auto
  then show ?thesis
    using 1 2 by (simp add: lower_addsub_def lowered_ok_def)
qed

lemma lower_mul_ok:
  assumes inv: "table_inv vs"
    and rng: "re a < length vs" "im a < length vs" "re b < length vs" "im b < length vs"
  shows "lowered_ok vs (lower_mul nf a b vs)"
proof -
  obtain m1 v1 where 1: "mul nf (re a) (re b) vs = Inr (m1, v1)" "table_inv v1" "m1 < length v1"
    "length vs \<le> length v1" "\<exists>ys. v1 = vs @ ys"
    using step_ok(3)[OF inv rng(1) rng(3)] by (rule interned_okE)
  have "interned_ok v1 (mul nf (im a) (im b) v1)"
    using step_ok(3)[OF 1(2), of "im a" "im b"] rng 1(4) by auto
  then obtain m2 v2 where 2: "mul nf (im a) (im b) v1 = Inr (m2, v2)" "table_inv v2" "m2 < length v2"
    "length v1 \<le> length v2" "\<exists>ys. v2 = v1 @ ys" by (rule interned_okE)
  have "interned_ok v2 (sub nf m1 m2 v2)"
    using step_ok(2)[OF 2(2), of m1 m2] 1(3) 2(3,4) by auto
  then obtain r v3 where 3: "sub nf m1 m2 v2 = Inr (r, v3)" "table_inv v3" "r < length v3"
    "length v2 \<le> length v3" "\<exists>ys. v3 = v2 @ ys" by (rule interned_okE)
  have "interned_ok v3 (mul nf (re a) (im b) v3)"
    using step_ok(3)[OF 3(2), of "re a" "im b"] rng 1(4) 2(4) 3(4) by auto
  then obtain m3 v4 where 4: "mul nf (re a) (im b) v3 = Inr (m3, v4)" "table_inv v4" "m3 < length v4"
    "length v3 \<le> length v4" "\<exists>ys. v4 = v3 @ ys" by (rule interned_okE)
  have "interned_ok v4 (mul nf (im a) (re b) v4)"
    using step_ok(3)[OF 4(2), of "im a" "re b"] rng 1(4) 2(4) 3(4) 4(4) by auto
  then obtain m4 v5 where 5: "mul nf (im a) (re b) v4 = Inr (m4, v5)" "table_inv v5" "m4 < length v5"
    "length v4 \<le> length v5" "\<exists>ys. v5 = v4 @ ys" by (rule interned_okE)
  have "interned_ok v5 (add nf m3 m4 v5)"
    using step_ok(1)[OF 5(2), of m3 m4] 4(3) 5(3,4) by auto
  then obtain i v6 where 6: "add nf m3 m4 v5 = Inr (i, v6)" "table_inv v6" "i < length v6"
    "length v5 \<le> length v6" "\<exists>ys. v6 = v5 @ ys" by (rule interned_okE)
  have "\<exists>ys. v6 = vs @ ys" using 1(5) 2(5) 3(5) 4(5) 5(5) 6(5) by auto
  moreover have "r < length v6" using 3(3) 4(4) 5(4) 6(4) by linarith
  ultimately show ?thesis
    using 1(1) 2(1) 3(1) 4(1) 5(1) 6(1,2,3) by (simp add: lower_mul_def lowered_ok_def)
qed

lemma lower_div_ok:
  assumes inv: "table_inv vs"
    and rng: "re a < length vs" "im a < length vs" "re b < length vs" "im b < length vs"
  shows "lowered_ok vs (lower_div nf a b vs)"
proof -
  obtain t1 v1 where 1: "mul nf (re b) (re b) vs = Inr (t1, v1)" "table_inv v1" "t1 < length v1"
    "length vs \<le> length v1" "\<exists>ys. v1 = vs @ ys"
    using step_ok(3)[OF inv rng(3) rng(3)] by (rule interned_okE)
  have "interned_ok v1 (mul nf (im b) (im b) v1)"
    using step_ok(3)[OF 1(2), of "im b" "im b"] rng 1(4) by auto
  then obtain t2 v2 where 2: "mul nf (im b) (im b) v1 = Inr (t2, v2)" "table_inv v2" "t2 < length v2"
    "length v1 \<le> length v2" "\<exists>ys. v2 = v1 @ ys" by (rule interned_okE)
  have "interned_ok v2 (add nf t1 t2 v2)"
    using step_ok(1)[OF 2(2), of t1 t2] 1(3) 2(3,4) by auto
  then obtain t v3 where 3: "add nf t1 t2 v2 = Inr (t, v3)" "table_inv v3" "t < length v3"
    "length v2 \<le> length v3" "\<exists>ys. v3 = v2 @ ys" by (rule interned_okE)
  have "interned_ok v3 (mul nf (re a) (re b) v3)"
    using step_ok(3)[OF 3(2), of "re a" "re b"] rng 1(4) 2(4) 3(4) by auto
  then obtain m1 v4 where 4: "mul nf (re a) (re b) v3 = Inr (m1, v4)" "table_inv v4" "m1 < length v4"
    "length v3 \<le> length v4" "\<exists>ys. v4 = v3 @ ys" by (rule interned_okE)
  have "interned_ok v4 (mul nf (im a) (im b) v4)"
    using step_ok(3)[OF 4(2), of "im a" "im b"] rng 1(4) 2(4) 3(4) 4(4) by auto
  then obtain m2 v5 where 5: "mul nf (im a) (im b) v4 = Inr (m2, v5)" "table_inv v5" "m2 < length v5"
    "length v4 \<le> length v5" "\<exists>ys. v5 = v4 @ ys" by (rule interned_okE)
  have "interned_ok v5 (add nf m1 m2 v5)"
    using step_ok(1)[OF 5(2), of m1 m2] 4(3) 5(3,4) by auto
  then obtain s v6 where 6: "add nf m1 m2 v5 = Inr (s, v6)" "table_inv v6" "s < length v6"
    "length v5 \<le> length v6" "\<exists>ys. v6 = v5 @ ys" by (rule interned_okE)
  have "interned_ok v6 (div_values nf s t v6)"
    using step_ok(4)[OF 6(2), of s t] 3(3) 4(4) 5(4) 6(3,4) by auto
  then obtain r v7 where 7: "div_values nf s t v6 = Inr (r, v7)" "table_inv v7" "r < length v7"
    "length v6 \<le> length v7" "\<exists>ys. v7 = v6 @ ys" by (rule interned_okE)
  have "interned_ok v7 (mul nf (im a) (re b) v7)"
    using step_ok(3)[OF 7(2), of "im a" "re b"] rng 1(4) 2(4) 3(4) 4(4) 5(4) 6(4) 7(4) by auto
  then obtain m3 v8 where 8: "mul nf (im a) (re b) v7 = Inr (m3, v8)" "table_inv v8" "m3 < length v8"
    "length v7 \<le> length v8" "\<exists>ys. v8 = v7 @ ys" by (rule interned_okE)
  have "interned_ok v8 (mul nf (re a) (im b) v8)"
    using step_ok(3)[OF 8(2), of "re a" "im b"] rng 1(4) 2(4) 3(4) 4(4) 5(4) 6(4) 7(4) 8(4) by auto
  then obtain m4 v9 where 9: "mul nf (re a) (im b) v8 = Inr (m4, v9)" "table_inv v9" "m4 < length v9"
    "length v8 \<le> length v9" "\<exists>ys. v9 = v8 @ ys" by (rule interned_okE)
  have "interned_ok v9 (sub nf m3 m4 v9)"
    using step_ok(2)[OF 9(2), of m3 m4] 8(3) 9(3,4) by auto
  then obtain d v10 where 10: "sub nf m3 m4 v9 = Inr (d, v10)" "table_inv v10" "d < length v10"
    "length v9 \<le> length v10" "\<exists>ys. v10 = v9 @ ys" by (rule interned_okE)
  have "interned_ok v10 (div_values nf d t v10)"
    using step_ok(4)[OF 10(2), of d t] 3(3) 4(4) 5(4) 6(4) 7(4) 8(4) 9(4) 10(3,4) by auto
  then obtain i v11 where 11: "div_values nf d t v10 = Inr (i, v11)" "table_inv v11" "i < length v11"
    "length v10 \<le> length v11" "\<exists>ys. v11 = v10 @ ys" by (rule interned_okE)
  have "\<exists>ys. v11 = vs @ ys"
    using 1(5) 2(5) 3(5) 4(5) 5(5) 6(5) 7(5) 8(5) 9(5) 10(5) 11(5) by auto
  moreover have "r < length v11" using 7(3) 8(4) 9(4) 10(4) 11(4) by linarith
  ultimately show ?thesis
    using 1(1) 2(1) 3(1) 4(1) 5(1) 6(1) 7(1) 8(1) 9(1) 10(1) 11(1,2,3)
    by (simp add: lower_div_def lowered_ok_def)
qed

lemma num_ok:
  assumes "table_inv vs"
  obtains k vs' where "num s vs = (k, vs')" "table_inv vs'" "k < length vs'"
    "length vs \<le> length vs'" "\<exists>ys. vs' = vs @ ys" "vs' ! k = ValNumber s"
proof -
  obtain k vs' where e: "valueToIndex (ValNumber s) vs = (k, vs')"
    by (cases "valueToIndex (ValNumber s) vs")
  from valueToIndex_inv[OF assms _ e] e that show ?thesis by (simp add: num_def)
qed

lemma lower_number_ok:
  assumes "table_inv vs"
  shows "lowered_ok vs (Inr (lower_number s vs))"
proof -
  obtain r v1 where 1: "num s vs = (r, v1)" "table_inv v1" "r < length v1"
    "length vs \<le> length v1" "\<exists>ys. v1 = vs @ ys" using num_ok[OF assms] by metis
  obtain i v2 where 2: "num ''0'' v1 = (i, v2)" "table_inv v2" "i < length v2"
    "length v1 \<le> length v2" "\<exists>ys. v2 = v1 @ ys" using num_ok[OF 1(2)] by metis
  have "\<exists>ys. v2 = vs @ ys" using 1(5) 2(5) by auto
  then show ?thesis using 1 2 by (simp add: lower_number_def lowered_ok_def)
qed

lemma lower_i_ok:
  assumes "table_inv vs"
  shows "lowered_ok vs (Inr (lower_i vs))"
proof -
  obtain r v1 where 1: "num ''0'' vs = (r, v1)" "table_inv v1" "r < length v1"
    "length vs \<le> length v1" "\<exists>ys. v1 = vs @ ys" using num_ok[OF assms] by metis
  obtain i v2 where 2: "num ''1'' v1 = (i, v2)" "table_inv v2" "i < length v2"
    "length v1 \<le> length v2" "\<exists>ys. v2 = v1 @ ys" using num_ok[OF 1(2)] by metis
  have "\<exists>ys. v2 = vs @ ys" using 1(5) 2(5) by auto
  then show ?thesis using 1 2 by (simp add: lower_i_def lowered_ok_def)
qed

lemma lower_ok:
  "table_inv vs \<Longrightarrow>
   (undefined_names t = [] \<longrightarrow> lowered_ok vs (lower nf t vs)) \<and>
   (undefined_names t \<noteq> [] \<longrightarrow>
      lower nf t vs = Inl (SyntaxError (''undefined variable: '' @ hd (undefined_names t))))"
proof (induction t arbitrary: vs)
  case (Number s)
  then show ?case by (simp add: lower_number_ok)
next
  case (Name x)
  have "lowered_ok vs (Inr (\<lparr>re = 0, im = 1\<rparr>, vs))"
    using Name by (auto simp: lowered_ok_def table_inv_def)
  then show ?case using Name by (simp add: lower_i_ok)
next
  case (BinOp opr l r)
  show ?case
  proof (cases "undefined_names l = []")
    case False
    with BinOp.IH(1)[OF BinOp.prems] show ?thesis by simp
  next
    case True
    with BinOp.IH(1)[OF BinOp.prems] obtain a v1 where
      l: "lower nf l vs = Inr (a, v1)" "table_inv v1" "re a < length v1" "im a < length v1"
      "\<exists>ys. v1 = vs @ ys" by (auto simp: lowered_ok_def)
    show ?thesis
    proof (cases "undefined_names r = []")
      case False
      with BinOp.IH(2)[OF l(2)] True l(1) show ?thesis by simp
    next
      case rT: True
      with BinOp.IH(2)[OF l(2)] obtain b v2 where
        r: "lower nf r v1 = Inr (b, v2)" "table_inv v2" "re b < length v2" "im b < length v2"
        "\<exists>ys. v2 = v1 @ ys" by (auto simp: lowered_ok_def)
      have ra: "re a < length v2" "im a < length v2" using l(3,4) r(5) by auto
      have "lowered_ok v2 (case opr of
                  Plus \<Rightarrow> lower_addsub (add nf) a b v2
                | Minus \<Rightarrow> lower_addsub (sub nf) a b v2
                | Times \<Rightarrow> lower_mul nf a b v2
                | Divide \<Rightarrow> lower_div nf a b v2)"
        using lower_addsub_ok[OF r(2) ra r(3,4), of "add nf" nf]
          lower_addsub_ok[OF r(2) ra r(3,4), of "sub nf" nf]
          lower_mul_ok[OF r(2) ra r(3,4)] lower_div_ok[OF r(2) ra r(3,4)]
        by (cases opr) simp_all
      then have "lowered_ok vs (lower nf (BinOp opr l r) vs)"
        using l(1,5) r(1,5) by (auto simp: lowered_ok_def)
      then show ?thesis using True rT by simp
    qed
  qed
qed

lemma table_inv_values0: "table_inv values0"
  by (simp add: table_inv_def values0_def topological_def less_Suc_eq)

subsection \<open>The use-count loop\<close>


lemma arr_set_end: "arr_set h xs (length xs) v = xs @ [v]"
  by (simp add: arr_set_def)

lemma increment_counts:
  assumes "a < m"
  shows "increment (map (\<lambda>k. Some (g k)) [0..<m]) a
           = map (\<lambda>k. Some (g k + (if a = k then 1 else 0))) [0..<m]"
  using assms
  by (intro nth_equalityI) (auto simp: increment_def arr_set_def arr_get_def nth_list_update)

lemma operand_uses_snoc:
  "operand_uses (xs @ [v]) k = operand_uses xs k + uses_in v k"
  by (simp add: operand_uses_def)

lemma operand_uses_above:
  "topological vs \<Longrightarrow> i \<le> length vs \<Longrightarrow> i \<le> k \<Longrightarrow> operand_uses (take i vs) k = 0"
proof (induction i)
  case 0
  then show ?case by (simp add: operand_uses_def)
next
  case (Suc i)
  then have ob: "operands_below i (vs ! i)" by (simp add: topological_def)
  have "uses_in (vs ! i) k = 0"
    using ob Suc.prems(3) by (cases "vs ! i") auto
  then show ?case
    using Suc by (simp add: take_Suc_conv_app_nth operand_uses_snoc)
qed

lemma useCounts_step_counts:
  assumes ob: "operands_below i (values ! i)"
  shows "useCounts_step values (map (\<lambda>k. Some (g k)) [0..<i]) i
           = map (\<lambda>k. Some ((if k = i then 0 else g k) + uses_in (values ! i) k)) [0..<Suc i]"
proof -
  have u: "arr_set None (map (\<lambda>k. Some (g k)) [0..<i]) i (Some 0)
             = map (\<lambda>k. Some (if k = i then 0 else g k)) [0..<Suc i]"
    by (simp add: arr_set_def)
  show ?thesis
  proof (cases "values ! i")
    case (ValOp opr a b)
    with ob have ab: "a < Suc i" "b < Suc i" by auto
    show ?thesis
      unfolding useCounts_step_def Let_def u
      by (simp only: ValOp ir_value.case increment_counts[OF ab(1)] increment_counts[OF ab(2)])
         (auto simp: add.assoc)
  next
    case (ValArg s)
    then show ?thesis unfolding useCounts_step_def Let_def u by simp
  next
    case (ValNumber s)
    then show ?thesis unfolding useCounts_step_def Let_def u by simp
  qed
qed

lemma useCounts_loop:
  "topological values \<Longrightarrow> i \<le> length values \<Longrightarrow>
   foldl (useCounts_step values) [] [0..<i]
     = map (\<lambda>k. Some (operand_uses (take i values) k)) [0..<i]"
proof (induction i)
  case 0
  then show ?case by simp
next
  case (Suc i)
  then have ob: "operands_below i (values ! i)" and il: "i < length values"
    by (simp_all add: topological_def)
  have ih: "foldl (useCounts_step values) [] [0..<i]
              = map (\<lambda>k. Some (operand_uses (take i values) k)) [0..<i]"
    using Suc by simp
  have z: "operand_uses (take i values) i = 0"
    using operand_uses_above[of "values" i i] Suc.prems by simp
  have "foldl (useCounts_step values) [] [0..<Suc i]
          = useCounts_step values (map (\<lambda>k. Some (operand_uses (take i values) k)) [0..<i]) i"
    by (simp add: ih)
  also have "\<dots> = map (\<lambda>k. Some ((if k = i then 0 else operand_uses (take i values) k)
                                   + uses_in (values ! i) k)) [0..<Suc i]"
    by (rule useCounts_step_counts[OF ob])
  also have "\<dots> = map (\<lambda>k. Some (operand_uses (take (Suc i) values) k)) [0..<Suc i]"
    using z il by (simp add: take_Suc_conv_app_nth operand_uses_snoc)
  finally show ?case .
qed

lemma computeUseCounts_topological:
  "topological values \<Longrightarrow>
   computeUseCounts values = map (\<lambda>k. Some (operand_uses values k)) [0..<length values]"
  using useCounts_loop[of "values" "length values"] by (simp add: computeUseCounts_def)

subsection \<open>The example formulas, evaluated\<close>


lemmas table_eval = values0_def valueToIndex_def valuesEqual_def num_def op_def
  value_at_def isNumber_def isZero_def isOne_def bothNumbers_def foldText_def foldNum_def
  add_def sub_def mul_def div_values_def lower_addsub_def lower_mul_def lower_div_def
  lower_number_def lower_i_def

lemma lower_square:
  "lower nf tree_square values0 = Inr (\<lparr>re = 7, im = 10\<rparr>, table_square)"
  by (simp add: tree_square_def table_square_def table_eval)

lemma lower_z_plus_1:
  "lower nf tree_z_plus_1 values0
     = Inr (\<lparr>re = 4, im = 1\<rparr>,
            [ValArg ''z_re'', ValArg ''z_im'', ValNumber ''1'', ValNumber ''0'', ValOp Plus 0 2])"
  by (simp add: tree_z_plus_1_def table_eval)

lemma lower_quotient:
  "lower nf tree_quotient values0 = Inr (\<lparr>re = 11, im = 15\<rparr>, table_quotient)"
  by (simp add: tree_quotient_def table_quotient_def table_eval)

lemma ir_to_js_quotient:
  "ir_to_js table_quotient \<lparr>re = 11, im = 15\<rparr> = emitted_quotient_code"
  by code_simp

lemma lower_2_times_3:
  "nf Times (FStr ''2'') (FStr ''3'') = ''6'' \<Longrightarrow>
   lower nf tree_2_times_3 values0
     = Inr (\<lparr>re = 5, im = 3\<rparr>,
            [ValArg ''z_re'', ValArg ''z_im'', ValNumber ''2'', ValNumber ''0'',
             ValNumber ''3'', ValNumber ''6''])"
  by (simp add: tree_2_times_3_def table_eval)

lemma ir_to_js_2_times_3:
  "ir_to_js [ValArg ''z_re'', ValArg ''z_im'', ValNumber ''2'', ValNumber ''0'',
             ValNumber ''3'', ValNumber ''6''] \<lparr>re = 5, im = 3\<rparr>
     = ''return {re: 6, im: 0};'' @ [CHR 0x0A]"
  by code_simp

lemma lower_z_times_1:
  "lower nf tree_z_times_1 values0
     = Inr (\<lparr>re = 0, im = 1\<rparr>,
            [ValArg ''z_re'', ValArg ''z_im'', ValNumber ''1'', ValNumber ''0''])"
  by (simp add: tree_z_times_1_def table_eval)

lemma ir_to_js_z_times_1:
  "ir_to_js [ValArg ''z_re'', ValArg ''z_im'', ValNumber ''1'', ValNumber ''0'']
     \<lparr>re = 0, im = 1\<rparr> = ''return {re: z_re, im: z_im};'' @ [CHR 0x0A]"
  by code_simp

lemma lower_z_minus_negative:
  "nf Minus (FStr ''1'') (FStr ''2'') = ''-1'' \<Longrightarrow>
   lower nf tree_z_minus_negative values0
     = Inr (\<lparr>re = 6, im = 1\<rparr>,
            [ValArg ''z_re'', ValArg ''z_im'', ValNumber ''1'', ValNumber ''0'',
             ValNumber ''2'', ValNumber ''-1'', ValOp Minus 0 5])"
  by (simp add: tree_z_minus_negative_def table_eval)

lemma ir_to_js_z_minus_negative:
  "ir_to_js [ValArg ''z_re'', ValArg ''z_im'', ValNumber ''1'', ValNumber ''0'',
             ValNumber ''2'', ValNumber ''-1'', ValOp Minus 0 5] \<lparr>re = 6, im = 1\<rparr>
     = ''return {re: (z_re--1), im: z_im};'' @ [CHR 0x0A]"
  by code_simp

lemma int_fold_2_times_3: "int_fold Times (FStr ''2'') (FStr ''3'') = ''6''"
  by code_simp

lemma int_fold_1_minus_2: "int_fold Minus (FStr ''1'') (FStr ''2'') = ''-1''"
  by code_simp

lemma lower_from_values0:
  "(undefined_names t = [] \<longrightarrow> lowered_ok values0 (lower nf t values0)) \<and>
   (undefined_names t \<noteq> [] \<longrightarrow>
      lower nf t values0 = Inl (SyntaxError (''undefined variable: '' @ hd (undefined_names t))))"
  using lower_ok[OF table_inv_values0] .

lemma lower_result_inv:
  assumes "table_inv vs0" "lower nf t vs0 = Inr (p, vs)"
  shows "table_inv vs" "re p < length vs" "im p < length vs" "\<exists>ys. vs = vs0 @ ys"
proof -
  have "undefined_names t = []"
    using lower_ok[OF assms(1), of t nf] assms(2) by (cases "undefined_names t = []") auto
  then have "lowered_ok vs0 (lower nf t vs0)" using lower_ok[OF assms(1)] by blast
  then show "table_inv vs" "re p < length vs" "im p < length vs" "\<exists>ys. vs = vs0 @ ys"
    using assms(2) by (auto simp: lowered_ok_def)
qed

lemma lower_1_div_0:
  "lower nf tree_1_div_0 values0
     = Inr (\<lparr>re = 4, im = 4\<rparr>,
            [ValArg ''z_re'', ValArg ''z_im'', ValNumber ''1'', ValNumber ''0'',
             ValOp Divide 3 3])"
  by (simp add: tree_1_div_0_def table_eval)

lemma ir_to_js_1_div_0:
  "ir_to_js [ValArg ''z_re'', ValArg ''z_im'', ValNumber ''1'', ValNumber ''0'',
             ValOp Divide 3 3] \<lparr>re = 4, im = 4\<rparr>
     = ''var t0 = 0;'' @ [CHR 0x0A] @ ''return {re: (t0/t0), im: (t0/t0)};'' @ [CHR 0x0A]"
  by code_simp

subsection \<open>Further facts about interning and emission\<close>

lemma valueToIndex_nth: "snd (valueToIndex v vs) ! fst (valueToIndex v vs) = v"
proof (cases "v \<in> set vs")
  case True
  from valueToIndex_found[OF True] show ?thesis by auto
next
  case False
  from valueToIndex_new[OF False] show ?thesis by simp
qed

lemma valueToIndex_topological:
  "topological vs \<Longrightarrow> operands_below (length vs) v \<Longrightarrow> topological (snd (valueToIndex v vs))"
proof (cases "v \<in> set vs")
  case True
  assume "topological vs"
  with valueToIndex_found[OF True] show ?thesis by auto
next
  case False
  assume "topological vs" "operands_below (length vs) v"
  with valueToIndex_new[OF False] show ?thesis by (simp add: topological_append)
qed

lemma num_first_index:
  fixes vs :: "ir_value list"
  assumes "valueToIndex (ValNumber s) vs = (i, v1)"
  shows "ValNumber s \<in> set v1 \<and> i < length v1 \<and> v1 ! i = ValNumber s
          \<and> (\<forall>j < i. v1 ! j \<noteq> ValNumber s) \<and> (\<exists>zs. v1 = vs @ zs)"
proof (cases "ValNumber s \<in> set vs")
  case True
  from valueToIndex_found[OF True] assms True show ?thesis by auto
next
  case False
  from valueToIndex_new[OF False] assms have e: "i = length vs" "v1 = vs @ [ValNumber s]"
    by auto
  show ?thesis using e False by (auto simp: nth_append in_set_conv_nth)
qed

lemma ir_step_js_length:
  "length (js st) = i \<Longrightarrow> length (js (ir_step vs uc st i)) = Suc i"
  by (auto simp: ir_step_def arr_set_def Let_def split: option.splits)

lemma ir_loop_js_length:
  "length (js (foldl (ir_step vs uc) \<lparr>code = [], next_temp_id = 0, js = []\<rparr> [0..<i])) = i"
  by (induction i) (simp_all add: ir_step_js_length)

lemma compile_from_lower:
  "lower nf t values0 = Inr (p, vs) \<Longrightarrow> compileToComplexFunction nf t = Inr (ir_to_js vs p)"
  by (simp add: compileToComplexFunction_def)

lemma const_text_in:
  "(vs ! i = ValNumber s) = (const_text vs i = Some s)"
  "(\<exists>s. vs ! i = ValNumber s) = (const_text vs i \<noteq> None)"
  by (cases "vs ! i"; simp add: const_text_def)+

lemma varg0_const: "const_text vs i = Some s \<Longrightarrow> varg0 (vs ! i) = FStr s"
  by (cases "vs ! i") (simp_all add: const_text_def)

section \<open>The claims\<close>

text \<open>
  C1. The round trip: for every formula over \<open>z\<close>, \<open>i\<close>, numerals and the four
  operators, the compiled function agrees with evaluating the formula on complex
  numbers. The code breaks it for \<open>z-(1-2)\<close>. The inner difference folds to the constant
  \<open>-1\<close>; the outer subtraction is emitted as the operand texts joined by the operator
  with nothing between them, which gives \<open>(z_re--1)\<close>. JavaScript reads \<open>--\<close> as the
  decrement operator, so the body is not a function body and
  \<open>Function("z_re, z_im", code)\<close> throws instead of returning a function that maps
  \<open>z\<close> to \<open>z + 1\<close>. The theorem evaluates the compiler at that formula, for every fold
  that computes \<open>1 - 2\<close> as \<open>-1\<close>.
\<close>

theorem negative_constant_emits_decrement:
  assumes "nf Minus (FStr ''1'') (FStr ''2'') = ''-1''"
  shows "compileToComplexFunction nf tree_z_minus_negative
           = Inr (''return {re: (z_re--1), im: z_im};'' @ [CHR 0x0A])"
  by (simp only: compile_from_lower[OF lower_z_minus_negative[of nf, OF assms]]
      ir_to_js_z_minus_negative)

theorem negative_constant_emits_decrement_witness:
  "int_fold Minus (FStr ''1'') (FStr ''2'') = ''-1''
   \<and> compileToComplexFunction int_fold tree_z_minus_negative
       = Inr (''return {re: (z_re--1), im: z_im};'' @ [CHR 0x0A])"
  using negative_constant_emits_decrement[of int_fold, OF int_fold_1_minus_2] int_fold_1_minus_2
  by simp

text \<open>
  C2, as amended. A formula compiles exactly when it contains no identifier other than
  \<open>z\<close> and \<open>i\<close>. When it contains one, the compiler fails with the exception
  \<open>SyntaxError("undefined variable: " + id)\<close>, an object of the built-in class that
  the parser throws too, where \<open>id\<close> is the leftmost such identifier of the formula,
  and it returns neither a table nor code. No other exception leaves the compiler.
  Lowering a name node other than \<open>z\<close> and \<open>i\<close> fails naming it, whatever the table.
  For \<open>y + 1\<close> the message names \<open>y\<close>.
\<close>

theorem undefined_variable_fails:
  "(undefined_names t \<noteq> [] \<longrightarrow>
      compileToComplexFunction nf t
        = Inl (SyntaxError (''undefined variable: '' @ hd (undefined_names t)))
      \<and> hd (undefined_names t) \<in> set (undefined_names t))
   \<and> (undefined_names t = [] \<longrightarrow> (\<exists>text. compileToComplexFunction nf t = Inr text))
   \<and> (\<forall>e. compileToComplexFunction nf t = Inl e \<longrightarrow> error_name e = ''SyntaxError'')
   \<and> (x \<noteq> ''z'' \<and> x \<noteq> ''i'' \<longrightarrow>
        lower nf (Name x) vs = Inl (SyntaxError (''undefined variable: '' @ x)))
   \<and> compileToComplexFunction nf tree_y_plus_1 = Inl (SyntaxError ''undefined variable: y'')"
proof -
  have bad: "compileToComplexFunction nf t
        = Inl (SyntaxError (''undefined variable: '' @ hd (undefined_names t)))"
    if "undefined_names t \<noteq> []" for t
    using that lower_from_values0[of t nf] by (simp add: compileToComplexFunction_def)
  have good: "\<exists>text. compileToComplexFunction nf t = Inr text" if "undefined_names t = []"
    using that lower_from_values0[of t nf]
    by (auto simp: compileToComplexFunction_def lowered_ok_def)
  have cls: "error_name e = ''SyntaxError''" if "compileToComplexFunction nf t = Inl e" for e
  proof (cases "undefined_names t = []")
    case True
    with good that show ?thesis by auto
  next
    case False
    with bad[of t] that show ?thesis by auto
  qed
  from bad good cls bad[of tree_y_plus_1] show ?thesis by (simp add: tree_y_plus_1_def)
qed

theorem undefined_variable_fails_witness:
  "undefined_names tree_y_plus_1 = [''y'']
   \<and> compileToComplexFunction int_fold tree_y_plus_1
       = Inl (SyntaxError ''undefined variable: y'')
   \<and> error_name (SyntaxError ''undefined variable: y'') = ''SyntaxError''
   \<and> lower int_fold (Name ''y'') values0 = Inl (SyntaxError ''undefined variable: y'')
   \<and> undefined_names tree_z_times_1 = []
   \<and> compileToComplexFunction int_fold tree_z_times_1
       = Inr (''return {re: z_re, im: z_im};'' @ [CHR 0x0A])"
proof -
  have c: "compileToComplexFunction int_fold tree_z_times_1
       = Inr (''return {re: z_re, im: z_im};'' @ [CHR 0x0A])"
    by (simp only: compile_from_lower[OF lower_z_times_1] ir_to_js_z_times_1)
  show ?thesis
    using undefined_variable_fails[of tree_y_plus_1 int_fold "''y''" values0] c
    by (simp add: tree_y_plus_1_def tree_z_times_1_def)
qed

text \<open>
  C2 as stated fails in two ways. The formula \<open>x + y\<close> contains the identifier \<open>y\<close>,
  and the failure names \<open>x\<close>, not \<open>y\<close>: the left operand is lowered first and its
  exception ends the compilation. And the exception is a \<open>SyntaxError\<close>; the code has
  no separate class for undefined variables.
\<close>

theorem undefined_variable_names_leftmost_counterexample:
  "''y'' \<in> set (undefined_names tree_x_plus_y)
   \<and> compileToComplexFunction int_fold tree_x_plus_y
       = Inl (SyntaxError ''undefined variable: x'')
   \<and> compileToComplexFunction int_fold tree_x_plus_y
       \<noteq> Inl (SyntaxError ''undefined variable: y'')
   \<and> compileToComplexFunction int_fold tree_y_plus_1
       = Inl (SyntaxError ''undefined variable: y'')
   \<and> error_name (SyntaxError ''undefined variable: y'') = ''SyntaxError''
   \<and> error_name (SyntaxError ''undefined variable: y'') \<noteq> ''UndefinedVariableError''"
  by (simp add: compileToComplexFunction_def tree_x_plus_y_def tree_y_plus_1_def)

text \<open>
  C3. Only operation entries used more than once get a temporary; arguments and
  constants are emitted inline. The comment above \<open>compileToComplexFunction\<close> shows
  that output for \<open>(z+1)/(z-1)\<close>. \<open>ir_to_js\<close> tests the use count alone, so it also
  names \<open>z_re\<close>, \<open>z_im\<close> and the constant \<open>1\<close>, each of which is used more than
  once: the code it emits for the comment's formula is not the text of the comment.
\<close>

theorem arguments_and_constants_get_temporaries:
  "compileToComplexFunction nf tree_quotient = Inr emitted_quotient_code
   \<and> emitted_quotient_code \<noteq> documented_quotient_code
   \<and> table_quotient ! 0 = ValArg ''z_re''
   \<and> arr_get None (computeUseCounts table_quotient) 0 = Some 2
   \<and> table_quotient ! 2 = ValNumber ''1''
   \<and> arr_get None (computeUseCounts table_quotient) 2 = Some 2"
proof -
  have "compileToComplexFunction nf tree_quotient = Inr emitted_quotient_code"
    by (simp only: compile_from_lower[OF lower_quotient] ir_to_js_quotient)
  moreover have "emitted_quotient_code \<noteq> documented_quotient_code"
    by (simp add: emitted_quotient_code_def documented_quotient_code_def)
  moreover have "arr_get None (computeUseCounts table_quotient) 0 = Some 2"
    "arr_get None (computeUseCounts table_quotient) 2 = Some 2"
    by code_simp+
  moreover have "table_quotient ! 0 = ValArg ''z_re''" "table_quotient ! 2 = ValNumber ''1''"
    by (simp_all add: table_quotient_def)
  ultimately show ?thesis by simp
qed

theorem arguments_and_constants_get_temporaries_witness:
  "compileToComplexFunction int_fold tree_quotient = Inr emitted_quotient_code"
  using arguments_and_constants_get_temporaries[of int_fold] by simp

text \<open>
  C4, as amended. For the table that lowering completes, the use count of every index
  is the number of times the index is an operand of an operation entry.
  \<open>computeUseCounts\<close> takes the table alone and adds nothing for the result indices.
\<close>

theorem use_counts_are_operand_occurrences:
  assumes "lower nf t values0 = Inr (result, vs)"
  shows "computeUseCounts vs = map (\<lambda>k. Some (operand_uses vs k)) [0..<length vs]"
  using lower_result_inv(1)[OF table_inv_values0 assms]
  by (simp add: table_inv_def computeUseCounts_topological)

theorem use_counts_are_operand_occurrences_witness:
  "lower int_fold tree_quotient values0 = Inr (\<lparr>re = 11, im = 15\<rparr>, table_quotient)
   \<and> computeUseCounts table_quotient
       = map (\<lambda>k. Some (operand_uses table_quotient k)) [0..<length table_quotient]
   \<and> computeUseCounts table_quotient
       = [Some 2, Some 4, Some 2, Some 0, Some 2, Some 4, Some 1, Some 2, Some 2,
          Some 1, Some 1, Some 0, Some 1, Some 1, Some 1, Some 0]"
proof -
  have c: "computeUseCounts table_quotient
       = [Some 2, Some 4, Some 2, Some 0, Some 2, Some 4, Some 1, Some 2, Some 2,
          Some 1, Some 1, Some 0, Some 1, Some 1, Some 1, Some 0]"
    by code_simp
  show ?thesis
    using use_counts_are_operand_occurrences[OF lower_quotient[of int_fold]]
      lower_quotient[of int_fold] c by simp
qed

text \<open>
  C4 as stated fails on the formula \<open>z\<close>: the table is the two argument entries, the
  result pair is \<open>(0, 1)\<close>, and both use counts are 0, where the claim counts 1 for each
  result index.
\<close>

theorem use_counts_skip_results_counterexample:
  "lower int_fold (Name ''z'') values0 = Inr (\<lparr>re = 0, im = 1\<rparr>, values0)
   \<and> computeUseCounts values0 = [Some 0, Some 0]
   \<and> spec_use_count values0 \<lparr>re = 0, im = 1\<rparr> 0 = 1
   \<and> spec_use_count values0 \<lparr>re = 0, im = 1\<rparr> 1 = 1
   \<and> arr_get None (computeUseCounts values0) 0
       \<noteq> Some (spec_use_count values0 \<lparr>re = 0, im = 1\<rparr> 0)
   \<and> arr_get None (computeUseCounts values0) 1
       \<noteq> Some (spec_use_count values0 \<lparr>re = 0, im = 1\<rparr> 1)"
proof -
  have c: "computeUseCounts values0 = [Some 0, Some 0]"
    by (simp add: values0_def computeUseCounts_def useCounts_step_def arr_set_def)
  have s: "spec_use_count values0 \<lparr>re = 0, im = 1\<rparr> 0 = 1"
    "spec_use_count values0 \<lparr>re = 0, im = 1\<rparr> 1 = 1"
    by (simp_all add: spec_use_count_def operand_uses_def values0_def)
  show ?thesis using c s by (simp add: arr_get_def)
qed

text \<open>
  C5. After lowering, no two entries of the table are equal in the sense of
  \<open>valuesEqual\<close> (same type, same two arguments). For \<open>(z+1)*(z+1)\<close> the real part of
  \<open>z+1\<close> is the one entry \<open>z_re + 1\<close> at index 4 and its imaginary part is the one
  entry \<open>z_im\<close> at index 1; the four products of the multiplication take their
  operands from these two indices.
\<close>

theorem interning_leaves_no_duplicates:
  "(lower nf t values0 = Inr (p, vs) \<longrightarrow>
      distinct vs
      \<and> (\<forall>i < length vs. \<forall>j < length vs. i \<noteq> j \<longrightarrow> \<not> valuesEqual (vs ! i) (vs ! j)))
   \<and> lower nf' tree_z_plus_1 values0
       = Inr (\<lparr>re = 4, im = 1\<rparr>,
              [ValArg ''z_re'', ValArg ''z_im'', ValNumber ''1'', ValNumber ''0'', ValOp Plus 0 2])
   \<and> lower nf' tree_square values0 = Inr (\<lparr>re = 7, im = 10\<rparr>, table_square)
   \<and> count_list table_square (ValOp Plus 0 2) = 1
   \<and> count_list table_square (ValArg ''z_im'') = 1
   \<and> table_square ! 5 = ValOp Times 4 4 \<and> table_square ! 6 = ValOp Times 1 1
   \<and> table_square ! 8 = ValOp Times 4 1 \<and> table_square ! 9 = ValOp Times 1 4"
proof -
  have "distinct vs
      \<and> (\<forall>i < length vs. \<forall>j < length vs. i \<noteq> j \<longrightarrow> \<not> valuesEqual (vs ! i) (vs ! j))"
    if "lower nf t values0 = Inr (p, vs)"
    using lower_result_inv(1)[OF table_inv_values0 that]
    by (auto simp: table_inv_def valuesEqual_iff nth_eq_iff_index_eq)
  moreover have "count_list table_square (ValOp Plus 0 2) = 1"
    "count_list table_square (ValArg ''z_im'') = 1"
    "table_square ! 5 = ValOp Times 4 4 \<and> table_square ! 6 = ValOp Times 1 1
      \<and> table_square ! 8 = ValOp Times 4 1 \<and> table_square ! 9 = ValOp Times 1 4"
    by (simp_all add: table_square_def)
  ultimately show ?thesis using lower_square lower_z_plus_1 by blast
qed

theorem interning_leaves_no_duplicates_witness:
  "lower int_fold tree_square values0 = Inr (\<lparr>re = 7, im = 10\<rparr>, table_square)
   \<and> distinct table_square
   \<and> \<not> valuesEqual (table_square ! 8) (table_square ! 9)"
proof -
  have l: "lower int_fold tree_square values0 = Inr (\<lparr>re = 7, im = 10\<rparr>, table_square)"
    by (rule lower_square)
  have n: "(8::nat) < length table_square" "(9::nat) < length table_square" "(8::nat) \<noteq> 9"
    by (simp_all add: table_square_def)
  show ?thesis
    using interning_leaves_no_duplicates[of int_fold tree_square "\<lparr>re = 7, im = 10\<rparr>"
        table_square int_fold] l n
    by blast
qed

text \<open>
  C6. The table is in topological order throughout lowering. The initial table
  satisfies the invariant; interning a constant, or an operation whose operands are
  indices of the table, keeps the order; lowering from any table that satisfies the
  invariant only appends to it, returns indices of the final table, and leaves a table
  in which every operation has both operands at smaller indices. As the table only
  grows at its end, each table on the way is a prefix of the final one, and every
  prefix is in topological order. So when the loop of \<open>ir_to_js\<close> reaches an operation
  at index \<open>i\<close>, the array \<open>js\<close> holds \<open>i\<close> texts, those of both operands among them.
\<close>

theorem lowering_keeps_topological_order:
  "table_inv values0 \<and> topological values0
   \<and> (topological vs \<and> a < length vs \<and> b < length vs \<longrightarrow> topological (snd (op opr a b vs)))
   \<and> (topological vs \<longrightarrow> topological (snd (num s vs)))
   \<and> (table_inv vs0 \<and> lower nf t vs0 = Inr (p, vs1) \<longrightarrow>
        table_inv vs1 \<and> topological vs1 \<and> (\<exists>ys. vs1 = vs0 @ ys)
        \<and> (\<forall>n. topological (take n vs1))
        \<and> re p < length vs1 \<and> im p < length vs1
        \<and> (\<forall>i < length vs1. \<forall>opr a b. vs1 ! i = ValOp opr a b \<longrightarrow>
              a < i \<and> b < i
              \<and> i = length (js (foldl (ir_step vs1 (computeUseCounts vs1))
                                   \<lparr>code = [], next_temp_id = 0, js = []\<rparr> [0..<i]))))"
proof -
  have 1: "table_inv values0 \<and> topological values0"
    using table_inv_values0 by (simp add: table_inv_def)
  have 2: "topological (snd (op opr a b vs))"
    if "topological vs" "a < length vs" "b < length vs"
    using that by (simp add: op_def valueToIndex_topological)
  have 3: "topological (snd (num s vs))" if "topological vs"
    using that by (simp add: num_def valueToIndex_topological)
  have 4: "table_inv vs1 \<and> topological vs1 \<and> (\<exists>ys. vs1 = vs0 @ ys)
        \<and> (\<forall>n. topological (take n vs1))
        \<and> re p < length vs1 \<and> im p < length vs1
        \<and> (\<forall>i < length vs1. \<forall>opr a b. vs1 ! i = ValOp opr a b \<longrightarrow>
              a < i \<and> b < i
              \<and> i = length (js (foldl (ir_step vs1 (computeUseCounts vs1))
                                   \<lparr>code = [], next_temp_id = 0, js = []\<rparr> [0..<i])))"
    if i: "table_inv vs0" and l: "lower nf t vs0 = Inr (p, vs1)"
  proof -
    note r = lower_result_inv[OF i l]
    have tp: "topological vs1" using r(1) by (simp add: table_inv_def)
    have "a < i \<and> b < i" if "i < length vs1" "vs1 ! i = ValOp opr a b" for i opr a b
      using tp that by (auto simp: topological_def)
    then show ?thesis
      using tp r by (simp add: topological_take ir_loop_js_length)
  qed
  show ?thesis using 1 2 3 4 by blast
qed

theorem lowering_keeps_topological_order_witness:
  "table_inv values0
   \<and> lower int_fold tree_quotient values0 = Inr (\<lparr>re = 11, im = 15\<rparr>, table_quotient)
   \<and> topological table_quotient
   \<and> table_quotient ! 11 = ValOp Divide 10 8
   \<and> 11 = length (js (foldl (ir_step table_quotient (computeUseCounts table_quotient))
                                   \<lparr>code = [], next_temp_id = 0, js = []\<rparr> [0..<11]))"
proof -
  have l: "lower int_fold tree_quotient values0 = Inr (\<lparr>re = 11, im = 15\<rparr>, table_quotient)"
    by (rule lower_quotient)
  have e: "table_quotient ! 11 = ValOp Divide 10 8" "(11::nat) < length table_quotient"
    by (simp_all add: table_quotient_def)
  show ?thesis
    using lowering_keeps_topological_order[of a vs b opr s values0 int_fold tree_quotient
        "\<lparr>re = 11, im = 15\<rparr>" table_quotient] l e
    by blast
qed

text \<open>
  C7. For indices of the table, \<open>div\<close> folds to a constant only when both operands
  are constants and the divisor is neither the constant \<open>1\<close> (then the dividend is
  returned) nor the constant \<open>0\<close>. When the divisor is the constant \<open>0\<close> or not a
  constant, \<open>div\<close> throws nothing and interns the division of \<open>a\<close> by \<open>b\<close>, so the
  division happens in the emitted code: \<open>1/0\<close> compiles to code that computes
  \<open>0/0\<close>.
\<close>

theorem div_fold_guard:
  "(a < length vs \<and> b < length vs \<longrightarrow>
      div_values nf a b vs = Inr
        (if const_text vs b = Some ''1'' then (a, vs)
         else case (const_text vs a, const_text vs b) of
                (Some x, Some y) \<Rightarrow>
                  if y \<noteq> ''0'' then num (nf Divide (FStr x) (FStr y)) vs
                  else op Divide a b vs
              | _ \<Rightarrow> op Divide a b vs)
      \<and> (const_text vs b = Some ''0'' \<or> const_text vs b = None \<longrightarrow>
           div_values nf a b vs = Inr (op Divide a b vs)
           \<and> snd (op Divide a b vs) ! fst (op Divide a b vs) = ValOp Divide a b))
   \<and> compileToComplexFunction nf' tree_1_div_0
       = Inr (''var t0 = 0;'' @ [CHR 0x0A] @ ''return {re: (t0/t0), im: (t0/t0)};'' @ [CHR 0x0A])"
proof -
  have "div_values nf a b vs = Inr
        (if const_text vs b = Some ''1'' then (a, vs)
         else case (const_text vs a, const_text vs b) of
                (Some x, Some y) \<Rightarrow>
                  if y \<noteq> ''0'' then num (nf Divide (FStr x) (FStr y)) vs
                  else op Divide a b vs
              | _ \<Rightarrow> op Divide a b vs)
      \<and> (const_text vs b = Some ''0'' \<or> const_text vs b = None \<longrightarrow>
           div_values nf a b vs = Inr (op Divide a b vs)
           \<and> snd (op Divide a b vs) ! fst (op Divide a b vs) = ValOp Divide a b)"
    if "a < length vs" "b < length vs"
    using that
    by (auto simp: div_in const_text_in varg0_const op_def valueToIndex_nth split: option.splits)
  moreover have "compileToComplexFunction nf' tree_1_div_0
       = Inr (''var t0 = 0;'' @ [CHR 0x0A] @ ''return {re: (t0/t0), im: (t0/t0)};'' @ [CHR 0x0A])"
    by (simp only: compile_from_lower[OF lower_1_div_0] ir_to_js_1_div_0)
  ultimately show ?thesis by blast
qed

theorem div_fold_guard_witness:
  "div_values int_fold 2 3 [ValArg ''z_re'', ValArg ''z_im'', ValNumber ''4'', ValNumber ''0'']
     = Inr (4, [ValArg ''z_re'', ValArg ''z_im'', ValNumber ''4'', ValNumber ''0'',
                ValOp Divide 2 3])
   \<and> div_values int_fold 2 0 [ValArg ''z_re'', ValArg ''z_im'', ValNumber ''4'', ValNumber ''0'']
     = Inr (4, [ValArg ''z_re'', ValArg ''z_im'', ValNumber ''4'', ValNumber ''0'',
                ValOp Divide 2 0])"
  using div_fold_guard[of 2 "[ValArg ''z_re'', ValArg ''z_im'', ValNumber ''4'', ValNumber ''0'']"
      3 int_fold int_fold]
    div_fold_guard[of 2 "[ValArg ''z_re'', ValArg ''z_im'', ValNumber ''4'', ValNumber ''0'']"
      0 int_fold int_fold]
  by (simp add: const_text_def op_def valueToIndex_def valuesEqual_def)

text \<open>
  C8. For indices of the table, \<open>mul\<close> applies its rules in order, the first match
  winning: \<open>a\<close> the constant \<open>0\<close> gives \<open>a\<close>; else \<open>b\<close> the constant \<open>0\<close> gives \<open>b\<close>;
  else \<open>a\<close> the constant \<open>1\<close> gives \<open>b\<close>; else \<open>b\<close> the constant \<open>1\<close> gives \<open>a\<close>;
  else two constants give the folded constant; otherwise the product is interned.
  Interning returns an index that holds the value: the index of its first occurrence
  with the table unchanged when the table has it, and otherwise the index of a new last
  entry. So the fallback returns an index that holds the multiplication of \<open>a\<close> and
  \<open>b\<close>, and the fold an index that holds the constant with the folded text: on the
  initial table the product of the two arguments is appended at index 2, and with a
  fold that computes \<open>2 * 3\<close> as \<open>6\<close> the product of the constants \<open>2\<close> and \<open>3\<close> is the
  appended constant \<open>6\<close>. And \<open>z*1\<close> compiles to code that returns \<open>z_re\<close> and
  \<open>z_im\<close>, with no multiplication in it.
\<close>

theorem mul_rules_in_order:
  "(a < length vs \<and> b < length vs \<longrightarrow>
      mul nf a b vs = Inr
        (if const_text vs a = Some ''0'' then (a, vs)
         else if const_text vs b = Some ''0'' then (b, vs)
         else if const_text vs a = Some ''1'' then (b, vs)
         else if const_text vs b = Some ''1'' then (a, vs)
         else case (const_text vs a, const_text vs b) of
                (Some x, Some y) \<Rightarrow> num (nf Times (FStr x) (FStr y)) vs
              | _ \<Rightarrow> op Times a b vs))
   \<and> compileToComplexFunction nf' tree_z_times_1
       = Inr (''return {re: z_re, im: z_im};'' @ [CHR 0x0A])
   \<and> CHR ''*'' \<notin> set (''return {re: z_re, im: z_im};'' @ [CHR 0x0A])
   \<and> snd (op Times a b vs) ! fst (op Times a b vs) = ValOp Times a b
   \<and> (ValOp Times a b \<in> set vs \<longrightarrow>
        snd (op Times a b vs) = vs \<and> fst (op Times a b vs) < length vs)
   \<and> (ValOp Times a b \<notin> set vs \<longrightarrow>
        op Times a b vs = (length vs, vs @ [ValOp Times a b]))
   \<and> snd (num s vs) ! fst (num s vs) = ValNumber s
   \<and> (ValNumber s \<in> set vs \<longrightarrow> snd (num s vs) = vs \<and> fst (num s vs) < length vs)
   \<and> (ValNumber s \<notin> set vs \<longrightarrow> num s vs = (length vs, vs @ [ValNumber s]))
   \<and> mul nf' 0 1 values0 = Inr (2, values0 @ [ValOp Times 0 1])
   \<and> (nf' Times (FStr ''2'') (FStr ''3'') = ''6'' \<longrightarrow>
        mul nf' 2 4 [ValArg ''z_re'', ValArg ''z_im'', ValNumber ''2'', ValNumber ''0'',
                     ValNumber ''3'']
          = Inr (5, [ValArg ''z_re'', ValArg ''z_im'', ValNumber ''2'', ValNumber ''0'',
                     ValNumber ''3'', ValNumber ''6'']))"
proof -
  have rules: "mul nf a b vs = Inr
        (if const_text vs a = Some ''0'' then (a, vs)
         else if const_text vs b = Some ''0'' then (b, vs)
         else if const_text vs a = Some ''1'' then (b, vs)
         else if const_text vs b = Some ''1'' then (a, vs)
         else case (const_text vs a, const_text vs b) of
                (Some x, Some y) \<Rightarrow> num (nf Times (FStr x) (FStr y)) vs
              | _ \<Rightarrow> op Times a b vs)"
    if "a < length vs" "b < length vs"
    using that by (auto simp: mul_in const_text_in varg0_const split: option.splits)
  have z1: "compileToComplexFunction nf' tree_z_times_1
       = Inr (''return {re: z_re, im: z_im};'' @ [CHR 0x0A])"
    by (simp only: compile_from_lower[OF lower_z_times_1] ir_to_js_z_times_1)
  have star: "CHR ''*'' \<notin> set (''return {re: z_re, im: z_im};'' @ [CHR 0x0A])"
    by simp
  have held: "snd (valueToIndex v vs) ! fst (valueToIndex v vs) = v" for v
    by (rule valueToIndex_nth)
  have found: "snd (valueToIndex v vs) = vs \<and> fst (valueToIndex v vs) < length vs"
    if "v \<in> set vs" for v
    using valueToIndex_found[OF that] by auto
  have new: "valueToIndex v vs = (length vs, vs @ [v])" if "v \<notin> set vs" for v
    using that by (rule valueToIndex_new)
  have prod: "mul nf' 0 1 values0 = Inr (2, values0 @ [ValOp Times 0 1])"
    by (simp add: table_eval)
  have fold: "mul nf' 2 4 [ValArg ''z_re'', ValArg ''z_im'', ValNumber ''2'', ValNumber ''0'',
                     ValNumber ''3'']
          = Inr (5, [ValArg ''z_re'', ValArg ''z_im'', ValNumber ''2'', ValNumber ''0'',
                     ValNumber ''3'', ValNumber ''6''])"
    if "nf' Times (FStr ''2'') (FStr ''3'') = ''6''"
    using that by (simp add: table_eval)
  show ?thesis
    unfolding op_def num_def
    using rules[unfolded op_def num_def] z1 star held found new prod fold
    by blast
qed

theorem mul_rules_in_order_witness:
  "mul int_fold 0 2 [ValArg ''z_re'', ValArg ''z_im'', ValNumber ''1'', ValNumber ''0'']
     = Inr (0, [ValArg ''z_re'', ValArg ''z_im'', ValNumber ''1'', ValNumber ''0''])
   \<and> mul int_fold 3 2 [ValArg ''z_re'', ValArg ''z_im'', ValNumber ''1'', ValNumber ''0'']
     = Inr (3, [ValArg ''z_re'', ValArg ''z_im'', ValNumber ''1'', ValNumber ''0''])
   \<and> compileToComplexFunction int_fold tree_z_times_1
       = Inr (''return {re: z_re, im: z_im};'' @ [CHR 0x0A])
   \<and> mul int_fold 0 1 [ValArg ''z_re'', ValArg ''z_im'', ValNumber ''1'', ValNumber ''0'']
     = Inr (4, [ValArg ''z_re'', ValArg ''z_im'', ValNumber ''1'', ValNumber ''0'',
                ValOp Times 0 1])
   \<and> int_fold Times (FStr ''2'') (FStr ''3'') = ''6''
   \<and> mul int_fold 2 4 [ValArg ''z_re'', ValArg ''z_im'', ValNumber ''2'', ValNumber ''0'',
                        ValNumber ''3'']
     = Inr (5, [ValArg ''z_re'', ValArg ''z_im'', ValNumber ''2'', ValNumber ''0'',
                ValNumber ''3'', ValNumber ''6''])"
proof -
  let ?t = "[ValArg ''z_re'', ValArg ''z_im'', ValNumber ''1'', ValNumber ''0'']"
  have m: "ValOp Times 0 1 \<notin> set ?t" by simp
  have c: "const_text ?t 0 = None" "const_text ?t 1 = None" "const_text ?t 2 = Some ''1''"
    "const_text ?t 3 = Some ''0''"
    by (simp_all add: const_text_def)
  have l: "(0::nat) < length ?t" "(1::nat) < length ?t" "(2::nat) < length ?t"
    "(3::nat) < length ?t" "length ?t = 4" by simp_all
  note r1 = mul_rules_in_order[of 0 ?t 2 int_fold int_fold "''6''"]
  note r2 = mul_rules_in_order[of 3 ?t 2 int_fold int_fold "''6''"]
  note r3 = mul_rules_in_order[of 0 ?t 1 int_fold int_fold "''6''"]
  have a: "mul int_fold 0 2 ?t = Inr (0, ?t)" using r1 c l by simp
  have b: "mul int_fold 3 2 ?t = Inr (3, ?t)" using r2 c l by simp
  have d: "mul int_fold 0 1 ?t = Inr (4, ?t @ [ValOp Times 0 1])"
    using r3 c l m by simp
  have e: "compileToComplexFunction int_fold tree_z_times_1
       = Inr (''return {re: z_re, im: z_im};'' @ [CHR 0x0A])" using r1 by blast
  have f: "mul int_fold 2 4 [ValArg ''z_re'', ValArg ''z_im'', ValNumber ''2'', ValNumber ''0'',
                        ValNumber ''3'']
     = Inr (5, [ValArg ''z_re'', ValArg ''z_im'', ValNumber ''2'', ValNumber ''0'',
                ValNumber ''3'', ValNumber ''6''])"
    using r1 int_fold_2_times_3 by blast
  show ?thesis using a b d e f int_fold_2_times_3 by simp
qed

text \<open>
  C9. For \<open>2*3\<close>, with a fold that computes \<open>2 * 3\<close> as \<open>6\<close>: the real result is
  the index of the one constant entry with text \<open>6\<close>, the table holds no operation
  entry, and the emitted code is the return of \<open>6\<close> and \<open>0\<close> with no multiplication
  operator. The products with the zero imaginary parts return the zero constant, and
  subtracting and adding that constant return the other operand.
\<close>

theorem two_times_three_folds:
  assumes "nf Times (FStr ''2'') (FStr ''3'') = ''6''"
  shows "lower nf tree_2_times_3 values0
           = Inr (\<lparr>re = 5, im = 3\<rparr>,
                  [ValArg ''z_re'', ValArg ''z_im'', ValNumber ''2'', ValNumber ''0'',
                   ValNumber ''3'', ValNumber ''6''])
         \<and> compileToComplexFunction nf tree_2_times_3
             = Inr (''return {re: 6, im: 0};'' @ [CHR 0x0A])
         \<and> CHR ''*'' \<notin> set (''return {re: 6, im: 0};'' @ [CHR 0x0A])"
proof -
  note l = lower_2_times_3[of nf, OF assms]
  have c: "compileToComplexFunction nf tree_2_times_3
               = Inr (''return {re: 6, im: 0};'' @ [CHR 0x0A])"
    by (simp only: compile_from_lower[OF l] ir_to_js_2_times_3)
  show ?thesis using l c by simp
qed

theorem two_times_three_folds_witness:
  "int_fold Times (FStr ''2'') (FStr ''3'') = ''6''
   \<and> compileToComplexFunction int_fold tree_2_times_3
       = Inr (''return {re: 6, im: 0};'' @ [CHR 0x0A])"
  using two_times_three_folds[of int_fold, OF int_fold_2_times_3] int_fold_2_times_3 by blast

text \<open>
  C10. Constants are interned by their text. Interning the text \<open>s1\<close> and later, after
  any entries \<open>ys\<close> have been appended, the text \<open>s2\<close> gives the same index exactly when
  the two texts are the same string. The texts \<open>1\<close> and \<open>1.0\<close> get two indices.
\<close>

theorem constants_interned_by_text:
  "(fst (num s2 (snd (num s1 vs) @ ys)) = fst (num s1 vs) \<longleftrightarrow> s1 = s2)
   \<and> fst (num ''1.0'' (snd (num ''1'' values0))) \<noteq> fst (num ''1'' values0)"
proof -
  have gen: "fst (num s2 (snd (num s1 vs) @ ys)) = fst (num s1 vs) \<longleftrightarrow> s1 = s2"
    for s1 s2 :: string and vs ys
  proof -
    obtain i v1 where n1: "valueToIndex (ValNumber s1) vs = (i, v1)"
      by (cases "valueToIndex (ValNumber s1) vs")
    from num_first_index[OF n1]
    have m: "ValNumber s1 \<in> set v1" and i: "i < length v1" "v1 ! i = ValNumber s1"
      and first: "\<forall>j < i. v1 ! j \<noteq> ValNumber s1" by auto
    obtain j v2 where n2: "valueToIndex (ValNumber s2) (v1 @ ys) = (j, v2)"
      by (cases "valueToIndex (ValNumber s2) (v1 @ ys)")
    from num_first_index[OF n2]
    have j: "v2 ! j = ValNumber s2" "\<forall>k < j. v2 ! k \<noteq> ValNumber s2"
      and ext: "\<exists>zs. v2 = (v1 @ ys) @ zs" by auto
    have vi: "v2 ! i = ValNumber s1" using ext i by (auto simp: nth_append)
    have "j = i \<longleftrightarrow> s1 = s2"
    proof
      assume e: "s1 = s2"
      have "\<not> i < j" using j(2) vi e by auto
      moreover have "\<not> j < i"
      proof
        assume "j < i"
        then have "v2 ! j = v1 ! j" using ext i(1) by (auto simp: nth_append)
        then show False using first \<open>j < i\<close> j(1) e by auto
      qed
      ultimately show "j = i" by simp
    next
      assume "j = i"
      then show "s1 = s2" using j(1) vi by simp
    qed
    then show ?thesis using n1 n2 by (simp add: num_def)
  qed
  have "fst (num ''1.0'' (snd (num ''1'' values0) @ [])) \<noteq> fst (num ''1'' values0)"
    using gen[of "''1.0''" "''1''" values0 "[]"] by simp
  then show ?thesis using gen by simp
qed

theorem constants_interned_by_text_witness:
  "fst (num ''1.0'' (snd (num ''1'' values0))) = 3 \<and> fst (num ''1'' values0) = 2
   \<and> fst (num ''1'' (snd (num ''1'' values0))) = 2"
  using constants_interned_by_text[of "''1''" "''1''" values0 "[]"]
  by (simp add: num_def valueToIndex_def valuesEqual_def values0_def)

end
